theory Spec2Isabelle
  imports Main
begin

section \<open>Strings of the host language\<close>

text \<open>
  A JavaScript string is a sequence of UTF-16 code units. A code unit is modelled as a
  natural number and a string as a list of them, so that \<open>length\<close> is the \<open>.length\<close> of
  the source and the white-space characters beyond Latin-1 (which \<open>trim\<close> and \<open>\s\<close> know)
  are part of the model. \<open>str\<close> embeds an ASCII literal.

  Numbers are modelled as mathematical integers. The source computes with IEEE doubles;
  the two agree on every integer of magnitude up to \<open>2^53\<close>, which covers every process
  id and every TCP port. A longer run of digits is rounded by the source, to a value the
  language leaves to the implementation, and is kept exact here.
\<close>

type_synonym jsstring = "nat list"

definition str :: "string \<Rightarrow> jsstring" where
  "str s = map of_char s"

text \<open>White space and line terminators of ECMAScript: what \<open>String.prototype.trim\<close> strips,
  what \<open>\s\<close> matches and what \<open>parseInt\<close> skips.\<close>

definition is_ws :: "nat \<Rightarrow> bool" where
  "is_ws c \<longleftrightarrow>
     c = 9 \<or> c = 10 \<or> c = 11 \<or> c = 12 \<or> c = 13 \<or> c = 32 \<or> c = 160 \<or> c = 5760 \<or>
     (8192 \<le> c \<and> c \<le> 8202) \<or> c = 8232 \<or> c = 8233 \<or> c = 8239 \<or> c = 8287 \<or>
     c = 12288 \<or> c = 65279"

text \<open>Line terminators: the characters \<open>.\<close> does not match.\<close>

definition is_line_terminator :: "nat \<Rightarrow> bool" where
  "is_line_terminator c \<longleftrightarrow> c = 10 \<or> c = 13 \<or> c = 8232 \<or> c = 8233"

definition is_digit :: "nat \<Rightarrow> bool" where
  "is_digit c \<longleftrightarrow> 48 \<le> c \<and> c \<le> 57"

definition trim :: "jsstring \<Rightarrow> jsstring" where
  "trim s = rev (dropWhile is_ws (rev (dropWhile is_ws s)))"

text \<open>\<open>s.split('\n')\<close>: the pieces between the line feeds; never the empty array.\<close>

fun split_nl :: "jsstring \<Rightarrow> jsstring list" where
  "split_nl [] = [[]]"
| "split_nl (c # cs) =
     (if c = 10 then [] # split_nl cs
      else (case split_nl cs of l # ls \<Rightarrow> (c # l) # ls | [] \<Rightarrow> [[c]]))"

text \<open>\<open>s.split(/\s+/)\<close>: the pieces between the maximal runs of white space. A string that
  starts (ends) with white space has an empty first (last) piece, and the empty string
  gives one empty piece.\<close>

function split_ws :: "jsstring \<Rightarrow> jsstring list" where
  "split_ws [] = [[]]"
| "split_ws (c # cs) =
     (if is_ws c then [] # split_ws (dropWhile is_ws cs)
      else (case split_ws cs of l # ls \<Rightarrow> (c # l) # ls | [] \<Rightarrow> [[c]]))"
  by pat_completeness auto
termination
  by (relation "measure length") (auto simp: less_Suc_eq_le length_dropWhile_le)

text \<open>\<open>parseInt(s, 10)\<close>: skips leading white space, reads an optional sign and the longest
  run of decimal digits; \<open>None\<close> is \<open>NaN\<close> (no digit was read).\<close>

definition digits_val :: "jsstring \<Rightarrow> nat" where
  "digits_val ds = foldl (\<lambda>a d. 10 * a + (d - 48)) 0 ds"

definition parseInt10 :: "jsstring \<Rightarrow> int option" where
  "parseInt10 s =
     (let t = dropWhile is_ws s;
          neg = (t \<noteq> [] \<and> hd t = 45);
          u = (if t \<noteq> [] \<and> (hd t = 45 \<or> hd t = 43) then tl t else t);
          ds = takeWhile is_digit u
      in if ds = [] then None
         else Some (if neg then - int (digits_val ds) else int (digits_val ds)))"

section \<open>Regular expressions\<close>

text \<open>
  The fragment of ECMAScript regular expressions the source uses: literals, character
  classes, sequence, alternation, capture groups, and the greedy quantifiers \<open>+\<close> and
  \<open>*\<close> on a single character class. The matcher returns every way of matching at the
  start of the input, in the order in which the backtracking matcher of the language
  tries them, so the head of the list is the match the language reports.
\<close>

datatype cclass =
    CChar nat
  | CRange nat nat
  | CDigit
  | CSpace
  | CDot
  | CUnion cclass cclass

datatype regex =
    Lit jsstring
  | Atom cclass
  | Plus cclass
  | Star cclass
  | Seq regex regex
  | Alt regex regex
  | Group nat regex

type_synonym captures = "nat \<Rightarrow> jsstring option"

text \<open>Canonicalisation under the flag \<open>i\<close>. The patterns of the source contain ASCII
  characters only, and no character outside ASCII canonicalises to an ASCII one, so
  upper-casing the ASCII letters is all that can make two characters meet.\<close>

definition canon :: "bool \<Rightarrow> nat \<Rightarrow> nat" where
  "canon ic c = (if ic \<and> 97 \<le> c \<and> c \<le> 122 then c - 32 else c)"

fun in_class :: "cclass \<Rightarrow> nat \<Rightarrow> bool" where
  "in_class (CChar a) c \<longleftrightarrow> c = a"
| "in_class (CRange a b) c \<longleftrightarrow> a \<le> c \<and> c \<le> b"
| "in_class CDigit c \<longleftrightarrow> is_digit c"
| "in_class CSpace c \<longleftrightarrow> is_ws c"
| "in_class CDot c \<longleftrightarrow> \<not> is_line_terminator c"
| "in_class (CUnion x y) c \<longleftrightarrow> in_class x c \<or> in_class y c"

text \<open>A character is in a class under \<open>i\<close> when it canonicalises like a member: itself,
  its upper-case or its lower-case form.\<close>

definition cmatch :: "bool \<Rightarrow> cclass \<Rightarrow> nat \<Rightarrow> bool" where
  "cmatch ic k c \<longleftrightarrow>
     in_class k c \<or>
     (ic \<and> ((97 \<le> c \<and> c \<le> 122 \<and> in_class k (c - 32)) \<or>
            (65 \<le> c \<and> c \<le> 90 \<and> in_class k (c + 32))))"

fun lit_prefix :: "bool \<Rightarrow> jsstring \<Rightarrow> jsstring \<Rightarrow> bool" where
  "lit_prefix ic [] inp \<longleftrightarrow> True"
| "lit_prefix ic (p # ps) [] \<longleftrightarrow> False"
| "lit_prefix ic (p # ps) (c # cs) \<longleftrightarrow> canon ic p = canon ic c \<and> lit_prefix ic ps cs"

text \<open>What a greedy \<open>k*\<close> can leave of the input: the longest run of \<open>k\<close> is tried
  first, then one character is given back at a time, down to the empty run. \<open>k+\<close> does
  the same and keeps at least one character.\<close>

fun star_rests :: "(nat \<Rightarrow> bool) \<Rightarrow> jsstring \<Rightarrow> jsstring list" where
  "star_rests P [] = [[]]"
| "star_rests P (c # cs) = (if P c then star_rests P cs @ [c # cs] else [c # cs])"

definition plus_rests :: "(nat \<Rightarrow> bool) \<Rightarrow> jsstring \<Rightarrow> jsstring list" where
  "plus_rests P inp = butlast (star_rests P inp)"

fun rmatch :: "bool \<Rightarrow> regex \<Rightarrow> jsstring \<Rightarrow> captures \<Rightarrow> (jsstring \<times> captures) list" where
  "rmatch ic (Lit p) inp caps =
     (if lit_prefix ic p inp then [(drop (length p) inp, caps)] else [])"
| "rmatch ic (Atom k) inp caps =
     (case inp of [] \<Rightarrow> [] | c # cs \<Rightarrow> if cmatch ic k c then [(cs, caps)] else [])"
| "rmatch ic (Plus k) inp caps = map (\<lambda>rest. (rest, caps)) (plus_rests (cmatch ic k) inp)"
| "rmatch ic (Star k) inp caps = map (\<lambda>rest. (rest, caps)) (star_rests (cmatch ic k) inp)"
| "rmatch ic (Seq a b) inp caps =
     concat (map (\<lambda>(rest, caps'). rmatch ic b rest caps') (rmatch ic a inp caps))"
| "rmatch ic (Alt a b) inp caps = rmatch ic a inp caps @ rmatch ic b inp caps"
| "rmatch ic (Group i a) inp caps =
     map (\<lambda>(rest, caps'). (rest, caps'(i \<mapsto> take (length inp - length rest) inp)))
       (rmatch ic a inp caps)"

text \<open>\<open>RegExp.prototype.exec\<close> from the start of \<open>inp\<close>: the first start position with a
  match wins. The result is the input after the match and the captures.\<close>

fun rexec :: "bool \<Rightarrow> regex \<Rightarrow> jsstring \<Rightarrow> (jsstring \<times> captures) option" where
  "rexec ic r [] = (case rmatch ic r [] Map.empty of [] \<Rightarrow> None | m # _ \<Rightarrow> Some m)"
| "rexec ic r (c # cs) =
     (case rmatch ic r (c # cs) Map.empty of [] \<Rightarrow> rexec ic r cs | m # _ \<Rightarrow> Some m)"

text \<open>\<open>m[i]\<close> for the result \<open>m\<close> of \<open>match\<close>: absent when there is no match or the group
  did not take part.\<close>

definition grp :: "(jsstring \<times> captures) option \<Rightarrow> nat \<Rightarrow> jsstring option" where
  "grp m i = (case m of None \<Rightarrow> None | Some (rest, caps) \<Rightarrow> caps i)"

text \<open>Truthiness of \<open>m && m[i]\<close>: there is a match and the group is a non-empty string.\<close>

definition truthy :: "jsstring option \<Rightarrow> bool" where
  "truthy g \<longleftrightarrow> (case g of None \<Rightarrow> False | Some s \<Rightarrow> s \<noteq> [])"


section \<open>The platform strategies\<close>

text \<open>The result of \<open>parseProcessInfo\<close>.\<close>

record process_info =
  pid :: int
  extensionPort :: int
  csrfToken :: jsstring

text \<open>\<open>/--extension_server_port[=\s]+(\d+)/\<close>\<close>

definition portRegex :: regex where
  "portRegex =
     Seq (Lit (str ''--extension_server_port''))
       (Seq (Plus (CUnion (CChar 61) CSpace)) (Group 1 (Plus CDigit)))"

text \<open>\<open>/--csrf_token[=\s]+([a-f0-9\-]+)/i\<close> (matched with the flag \<open>i\<close>)\<close>

definition tokenRegex :: regex where
  "tokenRegex =
     Seq (Lit (str ''--csrf_token''))
       (Seq (Plus (CUnion (CChar 61) CSpace))
          (Group 1 (Plus (CUnion (CRange 97 102) (CUnion (CRange 48 57) (CChar 45))))))"

text \<open>\<open>/ProcessId=(\d+)/\<close>\<close>

definition pidRegex :: regex where
  "pidRegex = Seq (Lit (str ''ProcessId='')) (Group 1 (Plus CDigit))"

text \<open>\<open>/127\.0\.0\.1:(\d+).*\(LISTEN\)/\<close>\<close>

definition lsofRegex :: regex where
  "lsofRegex =
     Seq (Lit (str ''127.0.0.1:''))
       (Seq (Group 1 (Plus CDigit)) (Seq (Star CDot) (Lit (str ''(LISTEN)''))))"

text \<open>\<open>/127\.0\.0\.1:(\d+).*LISTEN/\<close>\<close>

definition netstatRegex :: regex where
  "netstatRegex =
     Seq (Lit (str ''127.0.0.1:''))
       (Seq (Group 1 (Plus CDigit)) (Seq (Star CDot) (Lit (str ''LISTEN''))))"

text \<open>\<open>/localhost:(\d+).*\(LISTEN\)|localhost:(\d+).*LISTEN/\<close>\<close>

definition localhostRegex :: regex where
  "localhostRegex =
     Alt (Seq (Lit (str ''localhost:''))
            (Seq (Group 1 (Plus CDigit)) (Seq (Star CDot) (Lit (str ''(LISTEN)'')))))
         (Seq (Lit (str ''localhost:''))
            (Seq (Group 2 (Plus CDigit)) (Seq (Star CDot) (Lit (str ''LISTEN'')))))"

text \<open>\<open>/127\.0\.0\.1:(\d+)\s+0\.0\.0\.0:0\s+LISTENING/g\<close>\<close>

definition winPortRegex :: regex where
  "winPortRegex =
     Seq (Lit (str ''127.0.0.1:''))
       (Seq (Group 1 (Plus CDigit))
          (Seq (Plus CSpace)
             (Seq (Lit (str ''0.0.0.0:0'')) (Seq (Plus CSpace) (Lit (str ''LISTENING''))))))"

subsection \<open>The unix variant\<close>

text \<open>\<open>UnixProcessDetector.parseProcessInfo\<close>. The declared port is read from a group that
  matched \<open>\d+\<close>, so its \<open>parseInt\<close> is never \<open>NaN\<close> (lemma \<open>parseInt10_group_digits\<close>
  below); the branch for it is there to make the function total.\<close>

definition unix_parseProcessInfo :: "jsstring \<Rightarrow> process_info option" where
  "unix_parseProcessInfo stdout =
     (if stdout = [] \<or> length (trim stdout) = 0 then None
      else
        let portMatch = rexec False portRegex stdout;
            tokenMatch = rexec True tokenRegex stdout;
            lines = split_nl (trim stdout)
        in if length lines = 0 then None
           else
             let firstLine = hd lines;
                 columns = split_ws (trim firstLine)
             in if length columns < 2 then None
                else
                  let pidStr = columns ! 1
                  in case parseInt10 pidStr of
                       None \<Rightarrow> None
                     | Some pid' \<Rightarrow>
                         if \<not> truthy (grp tokenMatch 1) then None
                         else
                           let extensionPort' =
                                 (if truthy (grp portMatch 1)
                                  then (case parseInt10 (the (grp portMatch 1)) of
                                          Some n \<Rightarrow> n | None \<Rightarrow> 0)
                                  else 0);
                               csrfToken' = the (grp tokenMatch 1)
                           in Some \<lparr>pid = pid', extensionPort = extensionPort',
                                    csrfToken = csrfToken'\<rparr>)"

text \<open>\<open>if (!ports.includes(port)) ports.push(port)\<close>\<close>

definition push_new :: "int \<Rightarrow> int list \<Rightarrow> int list" where
  "push_new port ports = (if port \<in> set ports then ports else ports @ [port])"

text \<open>The port of a matched group; a group that matched \<open>\d+\<close> always has one.\<close>

definition push_group :: "jsstring option \<Rightarrow> int list \<Rightarrow> int list" where
  "push_group g ports =
     (case g of None \<Rightarrow> ports
      | Some ds \<Rightarrow> (case parseInt10 ds of None \<Rightarrow> ports | Some port \<Rightarrow> push_new port ports))"

text \<open>The body of the loop over the lines of \<open>UnixProcessDetector.parseListeningPorts\<close>.\<close>

definition unix_scan_line :: "jsstring \<Rightarrow> int list \<Rightarrow> int list" where
  "unix_scan_line line ports =
     (let lsofMatch = rexec False lsofRegex line
      in if truthy (grp lsofMatch 1) then push_group (grp lsofMatch 1) ports
         else
           let netstatMatch = rexec False netstatRegex line
           in if truthy (grp netstatMatch 1) then push_group (grp netstatMatch 1) ports
              else
                let localhostMatch = rexec False localhostRegex line
                in if localhostMatch \<noteq> None
                   then push_group
                          (if truthy (grp localhostMatch 1) then grp localhostMatch 1
                           else grp localhostMatch 2) ports
                   else ports)"

definition unix_parseListeningPorts :: "jsstring \<Rightarrow> int list" where
  "unix_parseListeningPorts stdout =
     (if stdout = [] \<or> length (trim stdout) = 0 then []
      else sort (foldl (\<lambda>ports line. unix_scan_line line ports) [] (split_nl (trim stdout))))"

subsection \<open>The windows variant\<close>

text \<open>\<open>WindowsProcessDetector.parseProcessInfo\<close>. There is no check for a blank output
  here. The pid and the declared port are read from groups that matched \<open>\d+\<close>, so
  their \<open>parseInt\<close> is never \<open>NaN\<close>; the branches for it make the function total
  (lemma \<open>win_parseProcessInfo_defined\<close> below).\<close>

definition win_parseProcessInfo :: "jsstring \<Rightarrow> process_info option" where
  "win_parseProcessInfo stdout =
     (let portMatch = rexec False portRegex stdout;
          tokenMatch = rexec True tokenRegex stdout;
          pidMatch = rexec False pidRegex stdout
      in if \<not> truthy (grp pidMatch 1) then None
         else if \<not> truthy (grp tokenMatch 1) then None
         else
           case parseInt10 (the (grp pidMatch 1)) of
             None \<Rightarrow> None
           | Some pid' \<Rightarrow>
               let extensionPort' =
                     (if truthy (grp portMatch 1)
                      then (case parseInt10 (the (grp portMatch 1)) of
                              Some n \<Rightarrow> n | None \<Rightarrow> 0)
                      else 0);
                   csrfToken' = the (grp tokenMatch 1)
               in Some \<lparr>pid = pid', extensionPort = extensionPort', csrfToken = csrfToken'\<rparr>)"


text \<open>\<open>WindowsProcessDetector.parseListeningPorts\<close>: the loop
  \<open>while ((match = portRegex.exec(stdout)) !== null)\<close> of a regular expression with the
  flag \<open>g\<close>. Each \<open>exec\<close> searches from the end of the previous match; the pattern has
  no anchor and no look-behind, so that is a search in the rest of the input. The loop
  ends because every match of the pattern consumes at least one character.\<close>

fun min_len :: "regex \<Rightarrow> nat" where
  "min_len (Lit p) = length p"
| "min_len (Atom k) = 1"
| "min_len (Plus k) = 1"
| "min_len (Star k) = 0"
| "min_len (Seq a b) = min_len a + min_len b"
| "min_len (Alt a b) = min (min_len a) (min_len b)"
| "min_len (Group i a) = min_len a"

lemma star_rests_length: "r \<in> set (star_rests P inp) \<Longrightarrow> length r \<le> length inp"
  by (induction inp) (auto split: if_splits)

lemma plus_rests_length: "r \<in> set (plus_rests P inp) \<Longrightarrow> length r < length inp"
  by (cases inp) (auto simp: plus_rests_def less_Suc_eq_le dest: star_rests_length split: if_splits)

lemma lit_prefix_length: "lit_prefix ic p inp \<Longrightarrow> length p \<le> length inp"
  by (induction ic p inp rule: lit_prefix.induct) auto

lemma rmatch_length:
  "(rest, caps') \<in> set (rmatch ic r inp caps) \<Longrightarrow> length rest + min_len r \<le> length inp"
proof (induction r arbitrary: inp caps rest caps')
  case (Lit p)
  then show ?case by (auto split: if_splits dest: lit_prefix_length)
next
  case (Atom k)
  then show ?case by (auto split: list.splits if_splits)
next
  case (Plus k)
  then show ?case by (auto dest: plus_rests_length)
next
  case (Star k)
  then show ?case by (auto dest: star_rests_length)
next
  case (Seq a b)
  from Seq.prems obtain mid capsm where
    m1: "(mid, capsm) \<in> set (rmatch ic a inp caps)" and
    m2: "(rest, caps') \<in> set (rmatch ic b mid capsm)"
    by auto
  from Seq.IH(1)[OF m1] Seq.IH(2)[OF m2] show ?case by simp
next
  case (Alt a b)
  then show ?case by fastforce
next
  case (Group i a)
  then show ?case by auto
qed

lemma rexec_length:
  "rexec ic r inp = Some (rest, caps') \<Longrightarrow> length rest + min_len r \<le> length inp"
proof (induction inp)
  case Nil
  then have "(rest, caps') \<in> set (rmatch ic r [] Map.empty)"
    by (auto split: list.splits)
  then show ?case by (rule rmatch_length)
next
  case (Cons c cs)
  show ?case
  proof (cases "rmatch ic r (c # cs) Map.empty")
    case Nil
    with Cons show ?thesis by simp
  next
    case (Cons m ms)
    with Cons.prems have "(rest, caps') \<in> set (rmatch ic r (c # cs) Map.empty)" by simp
    then show ?thesis by (rule rmatch_length)
  qed
qed

lemma winPortRegex_consumes:
  "rexec False winPortRegex inp = Some (rest, caps') \<Longrightarrow> length rest < length inp"
  by (drule rexec_length) (simp add: winPortRegex_def str_def)

function win_scan :: "jsstring \<Rightarrow> int list \<Rightarrow> int list" where
  "win_scan inp ports =
     (case rexec False winPortRegex inp of
        None \<Rightarrow> ports
      | Some (rest, caps) \<Rightarrow> win_scan rest (push_group (caps 1) ports))"
  by pat_completeness auto
termination
  by (relation "measure (\<lambda>(inp, ports). length inp)") (auto dest: winPortRegex_consumes)

declare win_scan.simps [simp del]

definition win_parseListeningPorts :: "jsstring \<Rightarrow> int list" where
  "win_parseListeningPorts stdout = sort (win_scan stdout [])"

text \<open>The strategy interface \<open>IPlatformStrategy\<close> and its two implementations.\<close>

datatype platform = Unix | Windows

fun parseProcessInfo :: "platform \<Rightarrow> jsstring \<Rightarrow> process_info option" where
  "parseProcessInfo Unix stdout = unix_parseProcessInfo stdout"
| "parseProcessInfo Windows stdout = win_parseProcessInfo stdout"

fun parseListeningPorts :: "platform \<Rightarrow> jsstring \<Rightarrow> int list" where
  "parseListeningPorts Unix stdout = unix_parseListeningPorts stdout"
| "parseListeningPorts Windows stdout = win_parseListeningPorts stdout"


section \<open>The detector\<close>

text \<open>
  \<open>ProcessPortDetector\<close> talks to the outside world: it runs two shell commands, sends
  HTTPS requests and sleeps. The world is a record of oracles; what an oracle answers may
  depend on everything that has happened so far, the trace. Every function of the
  detector takes the trace and returns it extended by the events it caused, in the order
  in which they happened. The console output is not modelled, and neither is the text of
  the two shell commands: an oracle stands for the command the strategy builds (for the
  process name, or for the pid it is given).
\<close>

text \<open>A rejected \<open>execAsync\<close>: the command timed out, or it exited with an error.\<close>

datatype cmd_error = CmdTimeout | CmdFailed

text \<open>What an HTTPS request comes to: a response with its status code, the event
  \<open>error\<close>, or the event \<open>timeout\<close>.\<close>

datatype probe_outcome = Response nat | ConnError | ProbeTimeout

datatype event =
    ProcessListRun "cmd_error + jsstring"
  | PortListRun int "cmd_error + jsstring"
  | ProbeSent int jsstring probe_outcome
  | Slept nat

type_synonym trace = "event list"

record world =
  processListCommand :: "trace \<Rightarrow> cmd_error + jsstring"
  portListCommand :: "trace \<Rightarrow> int \<Rightarrow> cmd_error + jsstring"
  httpsRequest :: "trace \<Rightarrow> int \<Rightarrow> jsstring \<Rightarrow> probe_outcome"

text \<open>The result of \<open>detectProcessInfo\<close>: \<open>AntigravityProcessInfo\<close>. Its fields
  \<open>extensionPort\<close> and \<open>csrfToken\<close> carry the prefix \<open>cred_\<close> here, the plain names
  being those of the fields of \<open>process_info\<close>.\<close>

record credentials =
  cred_extensionPort :: int
  connectPort :: int
  cred_csrfToken :: jsstring

text \<open>The errors thrown inside one attempt, all caught by the \<open>catch\<close> of the loop.\<close>

datatype attempt_error =
    CommandFailure cmd_error
  | ProcessNotFound
  | NoListeningPorts
  | NoWorkingPort

text \<open>\<open>testPortConnectivity\<close>: resolves to \<open>res.statusCode === 200\<close> on a response, and to
  \<open>false\<close> on \<open>error\<close> and on \<open>timeout\<close>.\<close>

definition testPortConnectivity ::
  "world \<Rightarrow> int \<Rightarrow> jsstring \<Rightarrow> trace \<Rightarrow> bool \<times> trace" where
  "testPortConnectivity w port token tr =
     (let outcome = httpsRequest w tr port token
      in ((case outcome of Response status \<Rightarrow> status = 200 | ConnError \<Rightarrow> False
           | ProbeTimeout \<Rightarrow> False),
          tr @ [ProbeSent port token outcome]))"

text \<open>\<open>findWorkingPort\<close>: the loop \<open>for (const port of ports)\<close>.\<close>

fun findWorkingPort :: "world \<Rightarrow> int list \<Rightarrow> jsstring \<Rightarrow> trace \<Rightarrow> int option \<times> trace" where
  "findWorkingPort w [] token tr = (None, tr)"
| "findWorkingPort w (port # ports) token tr =
     (case testPortConnectivity w port token tr of
        (isWorking, tr') \<Rightarrow>
          if isWorking then (Some port, tr') else findWorkingPort w ports token tr')"

text \<open>\<open>getProcessListeningPorts\<close>: an error of the command is caught and gives \<open>[]\<close>.\<close>

definition getProcessListeningPorts ::
  "world \<Rightarrow> platform \<Rightarrow> int \<Rightarrow> trace \<Rightarrow> int list \<times> trace" where
  "getProcessListeningPorts w plat pid' tr =
     (let res = portListCommand w tr pid';
          tr' = tr @ [PortListRun pid' res]
      in case res of
           Inr stdout \<Rightarrow> (parseListeningPorts plat stdout, tr')
         | Inl err \<Rightarrow> ([], tr'))"

text \<open>The body of the \<open>try\<close> of \<open>detectProcessInfo\<close>: one attempt. \<open>!connectPort\<close> holds
  for \<open>null\<close> and for the number 0.\<close>

definition attempt :: "world \<Rightarrow> platform \<Rightarrow> trace \<Rightarrow> (attempt_error + credentials) \<times> trace" where
  "attempt w plat tr =
     (let res = processListCommand w tr;
          tr1 = tr @ [ProcessListRun res]
      in case res of
           Inl err \<Rightarrow> (Inl (CommandFailure err), tr1)
         | Inr stdout \<Rightarrow>
             (case parseProcessInfo plat stdout of
                None \<Rightarrow> (Inl ProcessNotFound, tr1)
              | Some processInfo \<Rightarrow>
                  (case getProcessListeningPorts w plat (pid processInfo) tr1 of
                     (listeningPorts, tr2) \<Rightarrow>
                       if length listeningPorts = 0 then (Inl NoListeningPorts, tr2)
                       else
                         (case findWorkingPort w listeningPorts (csrfToken processInfo) tr2 of
                            (found, tr3) \<Rightarrow>
                              (case found of
                                 None \<Rightarrow> (Inl NoWorkingPort, tr3)
                               | Some port \<Rightarrow>
                                   if port = 0 then (Inl NoWorkingPort, tr3)
                                   else
                                     (Inr \<lparr>cred_extensionPort = extensionPort processInfo,
                                           connectPort = port,
                                           cred_csrfToken = csrfToken processInfo\<rparr>,
                                      tr3))))))"

text \<open>The loop \<open>for (let attempt = 1; attempt <= maxRetries; attempt++)\<close>, entered with
  the counter at \<open>n\<close>.\<close>

function detect_from ::
  "world \<Rightarrow> platform \<Rightarrow> nat \<Rightarrow> nat \<Rightarrow> nat \<Rightarrow> trace \<Rightarrow> credentials option \<times> trace" where
  "detect_from w plat maxRetries retryDelay n tr =
     (if n \<le> maxRetries then
        (case attempt w plat tr of
           (Inr creds, tr') \<Rightarrow> (Some creds, tr')
         | (Inl err, tr') \<Rightarrow>
             detect_from w plat maxRetries retryDelay (Suc n)
               (if n < maxRetries then tr' @ [Slept retryDelay] else tr'))
      else (None, tr))"
  by pat_completeness auto
termination
  by (relation "measure (\<lambda>(w, plat, maxRetries, retryDelay, n, tr). Suc maxRetries - n)") auto

declare detect_from.simps [simp del]

definition detectProcessInfo ::
  "world \<Rightarrow> platform \<Rightarrow> nat \<Rightarrow> nat \<Rightarrow> trace \<Rightarrow> credentials option \<times> trace" where
  "detectProcessInfo w plat maxRetries retryDelay tr = detect_from w plat maxRetries retryDelay 1 tr"


section \<open>Facts about the matcher\<close>

lemma star_rests_suffix:
  "r \<in> set (star_rests P inp) \<Longrightarrow> \<exists>pre. inp = pre @ r \<and> (\<forall>c \<in> set pre. P c)"
proof (induction inp)
  case Nil
  then show ?case by simp
next
  case (Cons c cs)
  show ?case
  proof (cases "r = c # cs")
    case True
    then show ?thesis by simp
  next
    case False
    with Cons.prems have pc: "P c" and "r \<in> set (star_rests P cs)"
      by (auto split: if_splits)
    from Cons.IH[OF this(2)] obtain pre where "cs = pre @ r" "\<forall>c \<in> set pre. P c" by blast
    with pc have "c # cs = (c # pre) @ r \<and> (\<forall>x \<in> set (c # pre). P x)" by simp
    then show ?thesis by blast
  qed
qed

lemma plus_rests_suffix:
  "r \<in> set (plus_rests P inp) \<Longrightarrow> \<exists>pre. inp = pre @ r \<and> pre \<noteq> [] \<and> (\<forall>c \<in> set pre. P c)"
proof -
  assume a: "r \<in> set (plus_rests P inp)"
  then have "r \<in> set (star_rests P inp)"
    by (auto simp: plus_rests_def dest: in_set_butlastD)
  from star_rests_suffix[OF this] obtain pre where p: "inp = pre @ r" "\<forall>c \<in> set pre. P c"
    by blast
  from a have "length r < length inp" by (rule plus_rests_length)
  with p have "pre \<noteq> []" by auto
  with p show ?thesis by blast
qed

definition digit_string :: "jsstring \<Rightarrow> bool" where
  "digit_string s \<longleftrightarrow> s \<noteq> [] \<and> (\<forall>c \<in> set s. is_digit c)"

lemma cmatch_CDigit [simp]: "cmatch ic CDigit = is_digit"
  by (rule ext) (auto simp: cmatch_def is_digit_def)

lemma parseInt10_digit_string:
  "digit_string s \<Longrightarrow> parseInt10 s = Some (int (digits_val s))"
proof -
  assume d: "digit_string s"
  then obtain c cs where s: "s = c # cs" by (cases s) (auto simp: digit_string_def)
  with d have c: "is_digit c" by (simp add: digit_string_def)
  then have "\<not> is_ws c" "c \<noteq> 45" "c \<noteq> 43" by (auto simp: is_digit_def is_ws_def)
  moreover from d have "takeWhile is_digit s = s" by (simp add: digit_string_def)
  ultimately show ?thesis using s by (simp add: parseInt10_def Let_def)
qed

text \<open>Every group of the pattern is \<open>(\d+)\<close>.\<close>

fun digit_groups :: "regex \<Rightarrow> bool" where
  "digit_groups (Group i a) \<longleftrightarrow> a = Plus CDigit"
| "digit_groups (Seq a b) \<longleftrightarrow> digit_groups a \<and> digit_groups b"
| "digit_groups (Alt a b) \<longleftrightarrow> digit_groups a \<and> digit_groups b"
| "digit_groups _ \<longleftrightarrow> True"

definition digit_caps :: "captures \<Rightarrow> bool" where
  "digit_caps caps \<longleftrightarrow> (\<forall>i s. caps i = Some s \<longrightarrow> digit_string s)"

lemma rmatch_digit_caps:
  "digit_groups r \<Longrightarrow> digit_caps caps \<Longrightarrow> (rest, caps') \<in> set (rmatch ic r inp caps) \<Longrightarrow>
     digit_caps caps'"
proof (induction r arbitrary: inp caps rest caps')
  case (Seq a b)
  from Seq.prems(3) obtain mid capsm where
    m1: "(mid, capsm) \<in> set (rmatch ic a inp caps)" and
    m2: "(rest, caps') \<in> set (rmatch ic b mid capsm)"
    by auto
  from Seq.prems(1) have ga: "digit_groups a" and gb: "digit_groups b" by simp_all
  from Seq.IH(1)[OF ga Seq.prems(2) m1] have "digit_caps capsm" .
  from Seq.IH(2)[OF gb this m2] show ?case .
next
  case (Alt a b)
  from Alt.prems(1) have ga: "digit_groups a" and gb: "digit_groups b" by simp_all
  from Alt.prems(3) have "(rest, caps') \<in> set (rmatch ic a inp caps) \<or>
      (rest, caps') \<in> set (rmatch ic b inp caps)" by simp
  then show ?case
  proof
    assume "(rest, caps') \<in> set (rmatch ic a inp caps)"
    from Alt.IH(1)[OF ga Alt.prems(2) this] show ?thesis .
  next
    assume "(rest, caps') \<in> set (rmatch ic b inp caps)"
    from Alt.IH(2)[OF gb Alt.prems(2) this] show ?thesis .
  qed
next
  case (Group i a)
  then have a: "a = Plus CDigit" by simp
  have "rmatch ic (Group i (Plus CDigit)) inp caps =
      map (\<lambda>rest. (rest, caps(i \<mapsto> take (length inp - length rest) inp)))
        (plus_rests is_digit inp)"
    by (simp add: comp_def)
  with Group.prems(3)[unfolded a] have "(rest, caps') \<in> (\<lambda>rest. (rest, caps(i \<mapsto> take (length inp - length rest) inp))) ` set (plus_rests is_digit inp)"
    by simp
  then have r: "rest \<in> set (plus_rests is_digit inp)"
    and c: "caps' = caps(i \<mapsto> take (length inp - length rest) inp)"
    by blast+
  from plus_rests_suffix[OF r] obtain pre where
    "inp = pre @ rest" "pre \<noteq> []" "\<forall>c \<in> set pre. is_digit c" by blast
  then have "digit_string (take (length inp - length rest) inp)"
    by (simp add: digit_string_def)
  with c Group.prems(2) show ?case by (simp add: digit_caps_def)
next
  case (Lit p)
  then show ?case by (auto split: if_splits)
next
  case (Atom k)
  then show ?case by (auto split: list.splits if_splits)
next
  case (Plus k)
  from Plus.prems(3) have "caps' = caps" by auto
  with Plus.prems(2) show ?case by simp
next
  case (Star k)
  from Star.prems(3) have "caps' = caps" by auto
  with Star.prems(2) show ?case by simp
qed

lemma rexec_mem:
  "rexec ic r inp = Some m \<Longrightarrow> \<exists>suf. m \<in> set (rmatch ic r suf Map.empty)"
proof (induction inp)
  case Nil
  then have "m \<in> set (rmatch ic r [] Map.empty)" by (auto split: list.splits)
  then show ?case by blast
next
  case (Cons c cs)
  show ?case
  proof (cases "rmatch ic r (c # cs) Map.empty")
    case Nil
    with Cons show ?thesis by simp
  next
    case (Cons m' ms)
    with Cons.prems have "m \<in> set (rmatch ic r (c # cs) Map.empty)" by simp
    then show ?thesis by blast
  qed
qed

lemma grp_digit_string:
  assumes "digit_groups r" "grp (rexec ic r inp) i = Some ds"
  shows "digit_string ds"
proof -
  from assms(2) obtain rest caps where m: "rexec ic r inp = Some (rest, caps)" and c: "caps i = Some ds"
    by (auto simp: grp_def split: option.splits)
  from rexec_mem[OF m] obtain suf where "(rest, caps) \<in> set (rmatch ic r suf Map.empty)" by blast
  from rmatch_digit_caps[OF assms(1) _ this] have "digit_caps caps" by (simp add: digit_caps_def)
  with c show ?thesis by (simp add: digit_caps_def)
qed

lemma digit_groups_patterns:
  "digit_groups portRegex" "digit_groups pidRegex" "digit_groups lsofRegex"
  "digit_groups netstatRegex" "digit_groups localhostRegex" "digit_groups winPortRegex"
  by (simp_all add: portRegex_def pidRegex_def lsofRegex_def netstatRegex_def
        localhostRegex_def winPortRegex_def)

text \<open>The port or pid of a matched group is a number: the branch for \<open>NaN\<close> is never taken.\<close>

lemma parseInt10_group_digits:
  assumes "r \<in> {portRegex, pidRegex, lsofRegex, netstatRegex, localhostRegex, winPortRegex}"
    and "grp (rexec ic r inp) i = Some ds"
  shows "parseInt10 ds = Some (int (digits_val ds))"
proof -
  from assms(1) have "digit_groups r" using digit_groups_patterns by auto
  from grp_digit_string[OF this assms(2)] show ?thesis by (rule parseInt10_digit_string)
qed

lemma push_group_digits:
  assumes "r \<in> {lsofRegex, netstatRegex, localhostRegex, winPortRegex}"
    and "grp (rexec ic r inp) i = Some ds"
  shows "push_group (Some ds) ports = push_new (int (digits_val ds)) ports"
proof -
  from assms have "parseInt10 ds = Some (int (digits_val ds))"
    by (intro parseInt10_group_digits[of r ic inp i]) auto
  then show ?thesis by (simp add: push_group_def)
qed

lemma win_parseProcessInfo_defined:
  assumes "truthy (grp (rexec False pidRegex stdout) 1)"
    and "truthy (grp (rexec True tokenRegex stdout) 1)"
  shows "win_parseProcessInfo stdout \<noteq> None"
proof -
  from assms(1) obtain ds where ds: "grp (rexec False pidRegex stdout) 1 = Some ds"
    by (auto simp: truthy_def split: option.splits)
  then have "parseInt10 ds = Some (int (digits_val ds))"
    by (intro parseInt10_group_digits[of pidRegex False stdout 1]) auto
  with assms ds show ?thesis by (simp add: win_parseProcessInfo_def Let_def)
qed

section \<open>Evaluation\<close>

text \<open>The definitions to unfold when a function of the model is run on a concrete input.\<close>

lemmas eval_simps =
  str_def is_ws_def is_digit_def is_line_terminator_def trim_def digits_val_def parseInt10_def
  canon_def cmatch_def plus_rests_def grp_def truthy_def portRegex_def tokenRegex_def
  pidRegex_def lsofRegex_def netstatRegex_def localhostRegex_def winPortRegex_def
  unix_parseProcessInfo_def push_new_def push_group_def unix_scan_line_def
  unix_parseListeningPorts_def win_parseProcessInfo_def win_parseListeningPorts_def
  win_scan.simps Let_def

section \<open>The port lists\<close>

lemma distinct_push_new: "distinct ports \<Longrightarrow> distinct (push_new port ports)"
  by (simp add: push_new_def)

lemma distinct_push_group: "distinct ports \<Longrightarrow> distinct (push_group g ports)"
  by (simp add: push_group_def distinct_push_new split: option.splits)

lemma distinct_unix_scan_line: "distinct ports \<Longrightarrow> distinct (unix_scan_line line ports)"
  by (simp add: unix_scan_line_def Let_def distinct_push_group)

lemma distinct_unix_scan:
  "distinct ports \<Longrightarrow> distinct (foldl (\<lambda>ports line. unix_scan_line line ports) ports lines)"
  by (induction lines arbitrary: ports) (simp_all add: distinct_unix_scan_line)

lemma distinct_win_scan: "distinct ports \<Longrightarrow> distinct (win_scan inp ports)"
proof (induction inp ports rule: win_scan.induct)
  case (1 inp ports)
  show ?case
  proof (cases "rexec False winPortRegex inp")
    case None
    with "1.prems" show ?thesis by (simp add: win_scan.simps)
  next
    case (Some m)
    obtain rest caps where m: "m = (rest, caps)" by (cases m)
    from "1.prems" have "distinct (push_group (caps 1) ports)" by (rule distinct_push_group)
    from "1.IH"[OF Some m[symmetric] this] Some m show ?thesis
      by (simp add: win_scan.simps[of inp])
  qed
qed

text \<open>A line without a listening loopback port, as the unix variant sees it: none of its
  three patterns matches.\<close>

definition unrecognized :: "jsstring \<Rightarrow> bool" where
  "unrecognized line \<longleftrightarrow>
     rexec False lsofRegex line = None \<and> rexec False netstatRegex line = None \<and>
     rexec False localhostRegex line = None"

lemma unix_scan_line_unrecognized: "unrecognized line \<Longrightarrow> unix_scan_line line ports = ports"
  by (simp add: unrecognized_def unix_scan_line_def grp_def truthy_def)

lemma unix_scan_unrecognized:
  "\<forall>line \<in> set lines. unrecognized line \<Longrightarrow>
     foldl (\<lambda>ports line. unix_scan_line line ports) ports lines = ports"
  by (induction lines arbitrary: ports) (simp_all add: unix_scan_line_unrecognized)

lemma win_scan_None: "rexec False winPortRegex inp = None \<Longrightarrow> win_scan inp ports = ports"
  by (simp add: win_scan.simps[of inp])

lemma win_scan_Nil: "win_scan [] ports = ports"
  by (rule win_scan_None) (simp add: winPortRegex_def str_def)

section \<open>Process information\<close>

lemma trim_all_ws: "\<forall>c \<in> set s. is_ws c \<Longrightarrow> trim s = []"
proof -
  assume "\<forall>c \<in> set s. is_ws c"
  then have d: "dropWhile is_ws s = []" by simp
  show ?thesis unfolding trim_def d by simp
qed

lemma rmatch_lit_head:
  "inp = [] \<or> canon ic (hd inp) \<noteq> canon ic p \<Longrightarrow> rmatch ic (Seq (Lit (p # ps)) r) inp caps = []"
  by (cases inp) auto

lemma rexec_lit_head:
  "\<forall>c \<in> set inp. canon ic c \<noteq> canon ic p \<Longrightarrow> rexec ic (Seq (Lit (p # ps)) r) inp = None"
proof (induction inp)
  case Nil
  then show ?case by simp
next
  case (Cons c cs)
  then have "rmatch ic (Seq (Lit (p # ps)) r) (c # cs) Map.empty = []"
    by (intro rmatch_lit_head) simp
  with Cons show ?case by simp
qed

lemma pidRegex_all_ws: "\<forall>c \<in> set s. is_ws c \<Longrightarrow> rexec False pidRegex s = None"
proof -
  assume a: "\<forall>c \<in> set s. is_ws c"
  have p: "pidRegex = Seq (Lit (80 # str ''rocessId='')) (Group 1 (Plus CDigit))"
    by (simp add: pidRegex_def str_def)
  from a have "\<forall>c \<in> set s. canon False c \<noteq> canon False 80"
    by (auto simp: canon_def is_ws_def)
  then show ?thesis unfolding p by (rule rexec_lit_head)
qed

text \<open>The columns of the first line of the trimmed output, and the pid the unix variant
  reads from the second of them.\<close>

definition first_line_columns :: "jsstring \<Rightarrow> jsstring list" where
  "first_line_columns stdout = split_ws (trim (hd (split_nl (trim stdout))))"

definition unix_pid :: "jsstring \<Rightarrow> int option" where
  "unix_pid stdout =
     (if length (first_line_columns stdout) < 2 then None
      else parseInt10 (first_line_columns stdout ! 1))"

lemma unix_no_token: "rexec True tokenRegex stdout = None \<Longrightarrow> unix_parseProcessInfo stdout = None"
  by (simp add: unix_parseProcessInfo_def Let_def grp_def truthy_def split: option.splits)

lemma win_no_token: "rexec True tokenRegex stdout = None \<Longrightarrow> win_parseProcessInfo stdout = None"
  by (simp add: win_parseProcessInfo_def Let_def grp_def truthy_def)

lemma win_no_pid: "rexec False pidRegex stdout = None \<Longrightarrow> win_parseProcessInfo stdout = None"
  by (simp add: win_parseProcessInfo_def Let_def grp_def truthy_def)

lemma unix_no_pid: "unix_pid stdout = None \<Longrightarrow> unix_parseProcessInfo stdout = None"
  by (auto simp: unix_parseProcessInfo_def unix_pid_def first_line_columns_def Let_def
      split: if_splits option.splits)

lemma unix_blank: "\<forall>c \<in> set stdout. is_ws c \<Longrightarrow> unix_parseProcessInfo stdout = None"
  by (simp add: unix_parseProcessInfo_def trim_all_ws)

lemma unix_Some:
  "unix_parseProcessInfo stdout = Some info \<Longrightarrow>
     unix_pid stdout = Some (pid info) \<and>
     grp (rexec True tokenRegex stdout) 1 = Some (csrfToken info) \<and>
     (rexec False portRegex stdout = None \<longrightarrow> extensionPort info = 0)"
  by (auto simp: unix_parseProcessInfo_def unix_pid_def first_line_columns_def Let_def
        truthy_def grp_def
      split: if_splits option.splits)

section \<open>The second column of the first line\<close>









lemma split_ws_nonempty: "split_ws s \<noteq> []"
  by (induction s rule: split_ws.induct) (auto split: list.splits)






section \<open>Process information: the claims\<close>

text \<open>Example inputs. The evaluation unfolds, besides the model, the vocabulary of the
  properties.\<close>

lemmas eval_more = eval_simps first_line_columns_def unix_pid_def unrecognized_def

definition blank_output :: jsstring where
  "blank_output = [32, 9, 10, 13, 10, 160, 8232, 32]"

definition tokenless_line :: jsstring where
  "tokenless_line =
     str ''user 4412 0.0 0.1 ... /opt/x/language_server_linux --extension_server_port=2873''"

definition pidless_output :: jsstring where
  "pidless_output =
     str ''CommandLine=language_server_windows_x64.exe --extension_server_port=2873 --csrf_token=ab12cd34-ef56''"

lemma blank_output_facts:
  "\<forall>c \<in> set blank_output. is_ws c"
  by (simp add: blank_output_def is_ws_def)

lemma tokenless_line_facts:
  "rexec True tokenRegex tokenless_line = None"
  "unix_pid tokenless_line = Some 4412"
  "grp (rexec False portRegex tokenless_line) 1 = Some (str ''2873'')"
  by (simp_all add: tokenless_line_def eval_more)

lemma pidless_output_facts:
  "rexec False pidRegex pidless_output = None"
  "grp (rexec True tokenRegex pidless_output) 1 = Some (str ''ab12cd34-ef56'')"
  "grp (rexec False portRegex pidless_output) 1 = Some (str ''2873'')"
  by (simp_all add: pidless_output_def eval_more)

lemma pidless_unix: "unix_pid (str ''user abc --csrf_token=ab12'') = None"
  by (simp add: eval_more)

text \<open>
  Claim C5. \<open>parseProcessInfo\<close> of either variant returns \<open>None\<close> (absent) for an input
  that is empty or holds only white space. More generally, each variant returns \<open>None\<close>
  when no CSRF token is found in the input, the unix variant when no pid can be read from
  the second column of the first line, and the windows variant when the input has no field
  \<open>ProcessId=<digits>\<close>.
\<close>

theorem parseProcessInfo_absent:
  "((\<forall>c \<in> set stdout. is_ws c) \<longrightarrow> parseProcessInfo plat stdout = None) \<and>
   (rexec True tokenRegex stdout = None \<longrightarrow> parseProcessInfo plat stdout = None) \<and>
   (unix_pid stdout = None \<longrightarrow> parseProcessInfo Unix stdout = None) \<and>
   (rexec False pidRegex stdout = None \<longrightarrow> parseProcessInfo Windows stdout = None)"
proof -
  have "(\<forall>c \<in> set stdout. is_ws c) \<longrightarrow> parseProcessInfo plat stdout = None"
    by (cases plat) (simp_all add: unix_blank pidRegex_all_ws win_no_pid)
  moreover have "rexec True tokenRegex stdout = None \<longrightarrow> parseProcessInfo plat stdout = None"
    by (cases plat) (simp_all add: unix_no_token win_no_token)
  moreover have "unix_pid stdout = None \<longrightarrow> parseProcessInfo Unix stdout = None"
    by (simp add: unix_no_pid)
  moreover have "rexec False pidRegex stdout = None \<longrightarrow> parseProcessInfo Windows stdout = None"
    by (simp add: win_no_pid)
  ultimately show ?thesis by blast
qed

theorem parseProcessInfo_absent_witness:
  "list_all is_ws blank_output \<and>
   parseProcessInfo Unix blank_output = None \<and> parseProcessInfo Windows blank_output = None \<and>
   parseProcessInfo Unix [] = None \<and> parseProcessInfo Windows [] = None \<and>
   rexec True tokenRegex tokenless_line = None \<and>
   parseProcessInfo Unix tokenless_line = None \<and> parseProcessInfo Windows tokenless_line = None \<and>
   unix_pid (str ''user abc --csrf_token=ab12'') = None \<and>
   parseProcessInfo Unix (str ''user abc --csrf_token=ab12'') = None \<and>
   rexec False pidRegex pidless_output = None \<and>
   parseProcessInfo Windows pidless_output = None"
  using parseProcessInfo_absent[of blank_output Unix] parseProcessInfo_absent[of blank_output Windows]
    parseProcessInfo_absent[of "[]" Unix] parseProcessInfo_absent[of "[]" Windows]
    parseProcessInfo_absent[of tokenless_line Unix] parseProcessInfo_absent[of tokenless_line Windows]
    parseProcessInfo_absent[of "str ''user abc --csrf_token=ab12''" Unix]
    parseProcessInfo_absent[of pidless_output Windows]
    blank_output_facts tokenless_line_facts(1) pidless_unix pidless_output_facts(1)
  by (simp add: list_all_iff)

text \<open>
  Claim C6. The unix variant returns \<open>None\<close> for every input in which the token
  pattern \<open>--csrf_token[=\s]+([a-f0-9\-]+)\<close> has no match, also when a pid and a declared
  port are there; the windows variant returns \<open>None\<close> for every input without a field
  \<open>ProcessId=<digits>\<close>, also when a token is there: a unix line with the pid 4412 and
  the declared port 2873 and no token gives \<open>None\<close>, and so does a windows output with
  a token and no \<open>ProcessId=\<close> field.
\<close>

theorem parseProcessInfo_required_fields:
  "(rexec True tokenRegex stdout = None \<longrightarrow> unix_parseProcessInfo stdout = None) \<and>
   (rexec False pidRegex stdout = None \<longrightarrow> win_parseProcessInfo stdout = None) \<and>
   unix_pid tokenless_line = Some 4412 \<and>
   grp (rexec False portRegex tokenless_line) 1 = Some (str ''2873'') \<and>
   unix_parseProcessInfo tokenless_line = None \<and>
   grp (rexec True tokenRegex pidless_output) 1 = Some (str ''ab12cd34-ef56'') \<and>
   win_parseProcessInfo pidless_output = None"
proof -
  have u: "rexec True tokenRegex stdout = None \<longrightarrow> unix_parseProcessInfo stdout = None"
    by (simp add: unix_no_token)
  have w: "rexec False pidRegex stdout = None \<longrightarrow> win_parseProcessInfo stdout = None"
    by (simp add: win_no_pid)
  have ue: "unix_parseProcessInfo tokenless_line = None"
    using tokenless_line_facts(1) by (rule unix_no_token)
  have we: "win_parseProcessInfo pidless_output = None"
    using pidless_output_facts(1) by (rule win_no_pid)
  from u w tokenless_line_facts(2,3) ue pidless_output_facts(2) we show ?thesis
    by (intro conjI)
qed

theorem parseProcessInfo_required_fields_witness:
  "rexec True tokenRegex tokenless_line = None \<and>
   unix_parseProcessInfo tokenless_line = None \<and>
   rexec False pidRegex pidless_output = None \<and>
   win_parseProcessInfo pidless_output = None"
  using parseProcessInfo_required_fields[of tokenless_line]
    parseProcessInfo_required_fields[of pidless_output]
    tokenless_line_facts(1) pidless_output_facts(1)
  by simp

definition example_line :: jsstring where
  "example_line =
     str ''user 4412 0.0 0.1 ... /opt/x/language_server_linux --extension_server_port=2873 --csrf_token=ab12cd34-ef56''"


lemma example_line_parse:
  "unix_parseProcessInfo example_line =
     Some \<lparr>pid = 4412, extensionPort = 2873, csrfToken = str ''ab12cd34-ef56''\<rparr>"
  by (simp add: example_line_def eval_simps)


definition two_line_output :: jsstring where
  "two_line_output =
     str ''user 4412 0.0 0.1 /opt/x/language_server_linux\<newline>root 77 0.0 0.0 helper --extension_server_port=2873 --csrf_token=ab12cd34''"



text \<open>
  Claim C10. The unix variant matches the token and port patterns against the whole
  output: on a two-line output whose first line has the pid 4412 in its second column and
  no token, and whose second line has the port and the token, it returns the pid of the
  first line with the port and the token of the second; the first line alone gives
  \<open>None\<close>. In every result the token is the first match of the token pattern in the whole
  output, and a declared port other than 0 comes from a match of the port pattern in the
  whole output.
\<close>

theorem unix_parseProcessInfo_whole_output:
  "hd (split_nl (trim two_line_output)) = str ''user 4412 0.0 0.1 /opt/x/language_server_linux'' \<and>
   rexec True tokenRegex (str ''user 4412 0.0 0.1 /opt/x/language_server_linux'') = None \<and>
   unix_parseProcessInfo (str ''user 4412 0.0 0.1 /opt/x/language_server_linux'') = None \<and>
   unix_parseProcessInfo two_line_output =
     Some \<lparr>pid = 4412, extensionPort = 2873, csrfToken = str ''ab12cd34''\<rparr> \<and>
   (unix_parseProcessInfo stdout = Some info \<longrightarrow>
      grp (rexec True tokenRegex stdout) 1 = Some (csrfToken info) \<and>
      (extensionPort info \<noteq> 0 \<longrightarrow> rexec False portRegex stdout \<noteq> None))"
proof -
  have "hd (split_nl (trim two_line_output)) = str ''user 4412 0.0 0.1 /opt/x/language_server_linux'' \<and>
   rexec True tokenRegex (str ''user 4412 0.0 0.1 /opt/x/language_server_linux'') = None \<and>
   unix_parseProcessInfo (str ''user 4412 0.0 0.1 /opt/x/language_server_linux'') = None \<and>
   unix_parseProcessInfo two_line_output =
     Some \<lparr>pid = 4412, extensionPort = 2873, csrfToken = str ''ab12cd34''\<rparr>"
    by (simp add: two_line_output_def eval_simps)
  with unix_Some[of stdout info] show ?thesis by blast
qed

theorem unix_parseProcessInfo_whole_output_witness:
  "unix_parseProcessInfo two_line_output =
     Some \<lparr>pid = 4412, extensionPort = 2873, csrfToken = str ''ab12cd34''\<rparr> \<and>
   grp (rexec True tokenRegex two_line_output) 1 = Some (str ''ab12cd34'') \<and>
   rexec False portRegex two_line_output \<noteq> None"
  using unix_parseProcessInfo_whole_output[of two_line_output
      "\<lparr>pid = 4412, extensionPort = 2873, csrfToken = str ''ab12cd34''\<rparr>"]
  by simp

section \<open>Listening ports: the layouts\<close>



















section \<open>Listening ports: the claims\<close>

definition unrecognized_output :: jsstring where
  "unrecognized_output =
     str ''COMMAND PID USER FD TYPE NAME\<newline>node 7 root 21u IPv4 TCP 127.0.0.1:8000->127.0.0.1:52100 (ESTABLISHED)''"

lemma unrecognized_output_facts:
  "\<forall>line \<in> set (split_nl (trim unrecognized_output)). unrecognized line"
  "rexec False winPortRegex unrecognized_output = None"
  by (simp_all add: unrecognized_output_def eval_more)





definition mixed_lsof_output :: jsstring where
  "mixed_lsof_output =
     str ''TCP 127.0.0.1:8000 (LISTEN)\<newline>TCP 127.0.0.1:9001 (LISTEN)\<newline>TCP 127.0.0.1:8000 (LISTEN)''"


text \<open>
  Claim C3. For every input, \<open>parseListeningPorts\<close> of either variant returns a list of
  distinct port numbers in ascending order; it returns the empty list for the empty input,
  the unix variant for every input none of whose lines matches one of its three patterns,
  and the windows variant for every input in which its pattern has no match.
\<close>

theorem parseListeningPorts_sorted_distinct:
  "distinct (parseListeningPorts plat stdout) \<and>
   sorted (parseListeningPorts plat stdout) \<and>
   parseListeningPorts plat [] = [] \<and>
   ((\<forall>line \<in> set (split_nl (trim stdout)). unrecognized line) \<longrightarrow>
      parseListeningPorts Unix stdout = []) \<and>
   (rexec False winPortRegex stdout = None \<longrightarrow> parseListeningPorts Windows stdout = [])"
proof -
  have d: "distinct (parseListeningPorts plat stdout)"
    by (cases plat)
      (simp_all add: unix_parseListeningPorts_def win_parseListeningPorts_def
         distinct_unix_scan distinct_win_scan)
  have s: "sorted (parseListeningPorts plat stdout)"
    by (cases plat) (simp_all add: unix_parseListeningPorts_def win_parseListeningPorts_def)
  have e: "parseListeningPorts plat [] = []"
    by (cases plat)
      (simp_all add: unix_parseListeningPorts_def win_parseListeningPorts_def win_scan_Nil)
  have u: "(\<forall>line \<in> set (split_nl (trim stdout)). unrecognized line) \<longrightarrow>
      parseListeningPorts Unix stdout = []"
    by (simp add: unix_parseListeningPorts_def unix_scan_unrecognized)
  have w: "rexec False winPortRegex stdout = None \<longrightarrow> parseListeningPorts Windows stdout = []"
    by (simp add: win_parseListeningPorts_def win_scan_None)
  from d s e u w show ?thesis by blast
qed

theorem parseListeningPorts_sorted_distinct_witness:
  "list_all unrecognized (split_nl (trim unrecognized_output)) \<and>
   rexec False winPortRegex unrecognized_output = None \<and>
   parseListeningPorts Unix unrecognized_output = [] \<and>
   parseListeningPorts Windows unrecognized_output = []"
  using parseListeningPorts_sorted_distinct[of Unix unrecognized_output]
    unrecognized_output_facts
  by (simp add: list_all_iff)




section \<open>Vocabulary of the properties\<close>

text \<open>The events of probing the ports \<open>ps\<close> one after the other, from the trace \<open>tr\<close> on,
  each probe answered by the world at the trace reached so far.\<close>
fun probe_events :: "world \<Rightarrow> jsstring \<Rightarrow> trace \<Rightarrow> int list \<Rightarrow> event list" where
  "probe_events w token tr [] = []"
| "probe_events w token tr (p # ps) =
     ProbeSent p token (httpsRequest w tr p token) #
     probe_events w token (tr @ [ProbeSent p token (httpsRequest w tr p token)]) ps"

fun succeeded :: "event \<Rightarrow> bool" where
  "succeeded (ProbeSent p token outcome) \<longleftrightarrow> outcome = Response 200"
| "succeeded _ \<longleftrightarrow> False"

fun probe_port :: "event \<Rightarrow> int option" where
  "probe_port (ProbeSent p token outcome) = Some p"
| "probe_port _ = None"

section \<open>Probing the candidate ports\<close>

lemma testPortConnectivity_iff:
  "testPortConnectivity w p token tr =
     (httpsRequest w tr p token = Response 200, tr @ [ProbeSent p token (httpsRequest w tr p token)])"
  by (simp add: testPortConnectivity_def Let_def split: probe_outcome.splits)

lemma probe_events_append:
  "probe_events w token tr (xs @ ys) =
     probe_events w token tr xs @ probe_events w token (tr @ probe_events w token tr xs) ys"
  by (induction xs arbitrary: tr) simp_all

lemma probe_events_ports: "map probe_port (probe_events w token tr ps) = map Some ps"
  by (induction ps arbitrary: tr) simp_all

lemma findWorkingPort_None:
  "findWorkingPort w ports token tr = (None, tr') \<Longrightarrow>
     tr' = tr @ probe_events w token tr ports \<and>
     (\<forall>e \<in> set (probe_events w token tr ports). \<not> succeeded e)"
proof (induction ports arbitrary: tr)
  case Nil
  then show ?case by simp
next
  case (Cons q qs)
  let ?e = "ProbeSent q token (httpsRequest w tr q token)"
  from Cons.prems have ne: "httpsRequest w tr q token \<noteq> Response 200"
    and rec: "findWorkingPort w qs token (tr @ [?e]) = (None, tr')"
    by (simp_all add: testPortConnectivity_iff split: if_splits)
  from Cons.IH[OF rec] ne show ?case by simp
qed

lemma findWorkingPort_Some:
  "findWorkingPort w ports token tr = (Some p, tr') \<Longrightarrow>
     \<exists>pre post. ports = pre @ p # post \<and>
       tr' = tr @ probe_events w token tr (pre @ [p]) \<and>
       (\<forall>e \<in> set (probe_events w token tr pre). \<not> succeeded e) \<and>
       httpsRequest w (tr @ probe_events w token tr pre) p token = Response 200"
proof (induction ports arbitrary: tr)
  case Nil
  then show ?case by simp
next
  case (Cons q qs)
  let ?e = "ProbeSent q token (httpsRequest w tr q token)"
  show ?case
  proof (cases "httpsRequest w tr q token = Response 200")
    case True
    with Cons.prems have "p = q" "tr' = tr @ [?e]"
      by (auto simp: testPortConnectivity_iff)
    with True have "q # qs = [] @ p # qs \<and>
       tr' = tr @ probe_events w token tr ([] @ [p]) \<and>
       (\<forall>e \<in> set (probe_events w token tr []). \<not> succeeded e) \<and>
       httpsRequest w (tr @ probe_events w token tr []) p token = Response 200"
      by simp
    then show ?thesis by blast
  next
    case False
    with Cons.prems have "findWorkingPort w qs token (tr @ [?e]) = (Some p, tr')"
      by (simp add: testPortConnectivity_iff)
    from Cons.IH[OF this] obtain pre post where
      h: "qs = pre @ p # post"
         "tr' = (tr @ [?e]) @ probe_events w token (tr @ [?e]) (pre @ [p])"
         "\<forall>e \<in> set (probe_events w token (tr @ [?e]) pre). \<not> succeeded e"
         "httpsRequest w ((tr @ [?e]) @ probe_events w token (tr @ [?e]) pre) p token = Response 200"
      by blast
    with False have "q # qs = (q # pre) @ p # post \<and>
       tr' = tr @ probe_events w token tr ((q # pre) @ [p]) \<and>
       (\<forall>e \<in> set (probe_events w token tr (q # pre)). \<not> succeeded e) \<and>
       httpsRequest w (tr @ probe_events w token tr (q # pre)) p token = Response 200"
      by simp
    then show ?thesis by blast
  qed
qed

text \<open>A world for the example of the specification: of the candidates 8000, 9001 and 9500
  only 9001 answers with status 200.\<close>

definition probe_world :: world where
  "probe_world =
     \<lparr>processListCommand = (\<lambda>tr. Inl CmdFailed),
      portListCommand = (\<lambda>tr p. Inl CmdFailed),
      httpsRequest = (\<lambda>tr port token. if port = 9001 then Response 200 else ConnError)\<rparr>"

text \<open>
  Claim C2. \<open>findWorkingPort\<close> probes the candidates one after the other in the order of
  the list, which is ascending when it comes from \<open>getProcessListeningPorts\<close>, as it does
  in an attempt; a probe succeeds exactly when the response has status 200; the first success
  ends the probing, so that the trace holds the probes of the candidates up to and
  including the successful one and of none after it; and when no candidate succeeds every
  candidate has been probed, in order, and the result is \<open>None\<close> (\<open>null\<close>).
\<close>

theorem findWorkingPort_first_success:
  "(fst (testPortConnectivity w q token tr0) \<longleftrightarrow> httpsRequest w tr0 q token = Response 200) \<and>
   sorted (fst (getProcessListeningPorts w plat pid0 tr1)) \<and>
   map probe_port (probe_events w token tr ports) = map Some ports \<and>
   (case findWorkingPort w ports token tr of
      (Some p, tr') \<Rightarrow>
        (\<exists>pre post. ports = pre @ p # post \<and>
           tr' = tr @ probe_events w token tr (pre @ [p]) \<and>
           (\<forall>e \<in> set (probe_events w token tr pre). \<not> succeeded e) \<and>
           httpsRequest w (tr @ probe_events w token tr pre) p token = Response 200)
    | (None, tr') \<Rightarrow>
        tr' = tr @ probe_events w token tr ports \<and>
        (\<forall>e \<in> set (probe_events w token tr ports). \<not> succeeded e))"
proof -
  have "fst (testPortConnectivity w q token tr0) \<longleftrightarrow> httpsRequest w tr0 q token = Response 200"
    by (simp add: testPortConnectivity_iff)
  moreover have "sorted (fst (getProcessListeningPorts w plat pid0 tr1))"
    by (cases plat)
      (simp_all add: getProcessListeningPorts_def Let_def unix_parseListeningPorts_def
         win_parseListeningPorts_def split: sum.splits)
  moreover have "map probe_port (probe_events w token tr ports) = map Some ports"
    by (rule probe_events_ports)
  moreover have "case findWorkingPort w ports token tr of
      (Some p, tr') \<Rightarrow>
        (\<exists>pre post. ports = pre @ p # post \<and>
           tr' = tr @ probe_events w token tr (pre @ [p]) \<and>
           (\<forall>e \<in> set (probe_events w token tr pre). \<not> succeeded e) \<and>
           httpsRequest w (tr @ probe_events w token tr pre) p token = Response 200)
    | (None, tr') \<Rightarrow>
        tr' = tr @ probe_events w token tr ports \<and>
        (\<forall>e \<in> set (probe_events w token tr ports). \<not> succeeded e)"
  proof (cases "findWorkingPort w ports token tr")
    case (Pair r tr')
    show ?thesis
    proof (cases r)
      case None
      with Pair findWorkingPort_None[of w ports token tr tr'] show ?thesis by simp
    next
      case (Some p)
      with Pair findWorkingPort_Some[of w ports token tr p tr'] show ?thesis by simp
    qed
  qed
  ultimately show ?thesis by blast
qed

theorem findWorkingPort_first_success_witness:
  "findWorkingPort probe_world [8000, 9001, 9500] (str ''ab12'') [] =
     (Some 9001,
      [ProbeSent 8000 (str ''ab12'') ConnError, ProbeSent 9001 (str ''ab12'') (Response 200)]) \<and>
   (\<exists>pre post. [8000, 9001, 9500] = pre @ 9001 # post \<and>
      (\<forall>e \<in> set (probe_events probe_world (str ''ab12'') [] pre). \<not> succeeded e))"
proof -
  have run: "findWorkingPort probe_world [8000, 9001, 9500] (str ''ab12'') [] =
     (Some 9001,
      [ProbeSent 8000 (str ''ab12'') ConnError, ProbeSent 9001 (str ''ab12'') (Response 200)])"
    by (simp add: testPortConnectivity_def probe_world_def)
  from findWorkingPort_first_success[of probe_world 8000 "str ''ab12''" "[]" Unix 4412 "[]" "[]"
      "[8000, 9001, 9500]"]
  show ?thesis unfolding run by auto
qed
section \<open>The retry loop\<close>

text \<open>What the trace shows of the loop: the start of an attempt (the process-list command
  is the first thing an attempt does) and the delays.\<close>

datatype mark = AttemptStarted | Delayed nat

fun marks :: "trace \<Rightarrow> mark list" where
  "marks [] = []"
| "marks (ProcessListRun res # tr) = AttemptStarted # marks tr"
| "marks (Slept ms # tr) = Delayed ms # marks tr"
| "marks (PortListRun p res # tr) = marks tr"
| "marks (ProbeSent p token outcome # tr) = marks tr"

text \<open>\<open>k\<close> failed attempts, each followed by the delay.\<close>

fun failed_marks :: "nat \<Rightarrow> nat \<Rightarrow> mark list" where
  "failed_marks 0 ms = []"
| "failed_marks (Suc k) ms = AttemptStarted # Delayed ms # failed_marks k ms"

text \<open>The trace after \<open>k\<close> attempts in a row that all fail, each followed by the delay;
  \<open>None\<close> when one of them succeeds.\<close>

fun after_failures :: "world \<Rightarrow> platform \<Rightarrow> nat \<Rightarrow> nat \<Rightarrow> trace \<Rightarrow> trace option" where
  "after_failures w plat ms 0 tr = Some tr"
| "after_failures w plat ms (Suc k) tr =
     (case attempt w plat tr of
        (Inl err, tr') \<Rightarrow> after_failures w plat ms k (tr' @ [Slept ms])
      | (Inr creds, tr') \<Rightarrow> None)"

lemma marks_append: "marks (xs @ ys) = marks xs @ marks ys"
  by (induction xs rule: marks.induct) simp_all

lemma marks_probe_events: "marks (probe_events w token tr ps) = []"
  by (induction ps arbitrary: tr) simp_all

lemma findWorkingPort_marks:
  "findWorkingPort w ports token tr = (r, tr') \<Longrightarrow> \<exists>evs. tr' = tr @ evs \<and> marks evs = []"
proof (cases r)
  case None
  assume "findWorkingPort w ports token tr = (r, tr')"
  with None findWorkingPort_None[of w ports token tr tr'] marks_probe_events show ?thesis by blast
next
  case (Some p)
  assume "findWorkingPort w ports token tr = (r, tr')"
  with Some findWorkingPort_Some[of w ports token tr p tr'] marks_probe_events show ?thesis by blast
qed

lemma attempt_marks:
  assumes "attempt w plat tr = (r, tr')"
  shows "\<exists>evs. tr' = tr @ evs \<and> marks evs = [AttemptStarted]"
proof (cases "processListCommand w tr")
  case (Inl err)
  with assms have "tr' = tr @ [ProcessListRun (Inl err)]" by (simp add: attempt_def Let_def)
  then show ?thesis by simp
next
  case (Inr stdout)
  let ?tr1 = "tr @ [ProcessListRun (Inr stdout)]"
  show ?thesis
  proof (cases "parseProcessInfo plat stdout")
    case None
    with Inr assms have "tr' = ?tr1" by (simp add: attempt_def Let_def)
    then show ?thesis by simp
  next
    case (Some info)
    obtain ports tr2 where g: "getProcessListeningPorts w plat (pid info) ?tr1 = (ports, tr2)"
      by (cases "getProcessListeningPorts w plat (pid info) ?tr1")
    then have tr2: "tr2 = ?tr1 @ [PortListRun (pid info) (portListCommand w ?tr1 (pid info))]"
      by (auto simp: getProcessListeningPorts_def Let_def split: sum.splits)
    show ?thesis
    proof (cases "ports = []")
      case True
      with Inr Some g assms have "tr' = tr2" by (simp add: attempt_def Let_def)
      with tr2 show ?thesis by (simp add: marks_append)
    next
      case False
      obtain found tr3 where f: "findWorkingPort w ports (csrfToken info) tr2 = (found, tr3)"
        by (cases "findWorkingPort w ports (csrfToken info) tr2")
      from findWorkingPort_marks[OF f] obtain evs where evs: "tr3 = tr2 @ evs" "marks evs = []"
        by blast
      from False Inr Some g f assms have "tr' = tr3"
        by (simp add: attempt_def Let_def split: option.splits if_splits)
      with tr2 evs show ?thesis by (simp add: marks_append)
    qed
  qed
qed

lemma after_failures_marks:
  "after_failures w plat ms k tr = Some tr0 \<Longrightarrow>
     \<exists>evs. tr0 = tr @ evs \<and> marks evs = failed_marks k ms"
proof (induction k arbitrary: tr)
  case 0
  then show ?case by simp
next
  case (Suc k)
  obtain r tr1 where a: "attempt w plat tr = (r, tr1)" by (cases "attempt w plat tr")
  with Suc.prems obtain err where r: "r = Inl err"
    and rec: "after_failures w plat ms k (tr1 @ [Slept ms]) = Some tr0"
    by (cases r) simp_all
  from attempt_marks[OF a] obtain e1 where e1: "tr1 = tr @ e1" "marks e1 = [AttemptStarted]"
    by blast
  from Suc.IH[OF rec] obtain e2 where e2: "tr0 = (tr1 @ [Slept ms]) @ e2" "marks e2 = failed_marks k ms"
    by blast
  from e1 e2 have "tr0 = tr @ (e1 @ [Slept ms] @ e2) \<and>
      marks (e1 @ [Slept ms] @ e2) = failed_marks (Suc k) ms"
    by (simp add: marks_append)
  then show ?case by blast
qed

lemma detect_from_success:
  "n + k \<le> maxRetries \<Longrightarrow> after_failures w plat ms k tr = Some tr0 \<Longrightarrow>
     attempt w plat tr0 = (Inr creds, tr') \<Longrightarrow>
     detect_from w plat maxRetries ms n tr = (Some creds, tr')"
proof (induction k arbitrary: n tr)
  case 0
  then show ?case by (simp add: detect_from.simps[of w plat maxRetries ms n])
next
  case (Suc k)
  obtain r tr1 where a: "attempt w plat tr = (r, tr1)" by (cases "attempt w plat tr")
  with Suc.prems(2) obtain err where r: "r = Inl err"
    and rec: "after_failures w plat ms k (tr1 @ [Slept ms]) = Some tr0"
    by (cases r) simp_all
  from Suc.prems(1) have n: "n < maxRetries" "Suc n + k \<le> maxRetries" by simp_all
  from Suc.IH[OF n(2) rec Suc.prems(3)] a r n(1) show ?case
    by (simp add: detect_from.simps[of w plat maxRetries ms n])
qed

lemma detect_from_exhausted:
  "n \<le> maxRetries \<Longrightarrow> k = maxRetries - n \<Longrightarrow> after_failures w plat ms k tr = Some tr0 \<Longrightarrow>
     attempt w plat tr0 = (Inl err, tr') \<Longrightarrow>
     detect_from w plat maxRetries ms n tr = (None, tr')"
proof (induction k arbitrary: n tr)
  case 0
  then have "n = maxRetries" "tr0 = tr" by simp_all
  with "0.prems"(4) show ?case
    by (simp add: detect_from.simps[of w plat maxRetries ms maxRetries]
          detect_from.simps[of w plat maxRetries ms "Suc maxRetries"])
next
  case (Suc k)
  obtain r tr1 where a: "attempt w plat tr = (r, tr1)" by (cases "attempt w plat tr")
  with Suc.prems(3) obtain err1 where r: "r = Inl err1"
    and rec: "after_failures w plat ms k (tr1 @ [Slept ms]) = Some tr0"
    by (cases r) simp_all
  from Suc.prems(1,2) have n: "n < maxRetries" "Suc n \<le> maxRetries" "k = maxRetries - Suc n"
    by simp_all
  from Suc.IH[OF n(2,3) rec Suc.prems(4)] a r n(1) show ?case
    by (simp add: detect_from.simps[of w plat maxRetries ms n])
qed

text \<open>Every run of the loop is of one of the two kinds.\<close>

lemma attempts_classified:
  "k = maxRetries - n \<Longrightarrow> n \<le> maxRetries \<Longrightarrow>
     (\<exists>j tr0 creds tr'. n + j \<le> maxRetries \<and> after_failures w plat ms j tr = Some tr0 \<and>
        attempt w plat tr0 = (Inr creds, tr')) \<or>
     (\<exists>tr0 err tr'. after_failures w plat ms (maxRetries - n) tr = Some tr0 \<and>
        attempt w plat tr0 = (Inl err, tr'))"
proof (induction k arbitrary: n tr)
  case 0
  then have n: "n = maxRetries" by simp
  obtain r tr1 where a: "attempt w plat tr = (r, tr1)" by (cases "attempt w plat tr")
  show ?case
  proof (cases r)
    case (Inl err)
    with a n have "after_failures w plat ms (maxRetries - n) tr = Some tr \<and>
        attempt w plat tr = (Inl err, tr1)" by simp
    then show ?thesis by blast
  next
    case (Inr creds)
    with a n have "n + 0 \<le> maxRetries \<and> after_failures w plat ms 0 tr = Some tr \<and>
        attempt w plat tr = (Inr creds, tr1)" by simp
    then show ?thesis by blast
  qed
next
  case (Suc k)
  then have n: "n < maxRetries" "k = maxRetries - Suc n" "Suc n \<le> maxRetries"
    "maxRetries - n = Suc (maxRetries - Suc n)" by simp_all
  obtain r tr1 where a: "attempt w plat tr = (r, tr1)" by (cases "attempt w plat tr")
  show ?case
  proof (cases r)
    case (Inr creds)
    with a Suc.prems have "n + 0 \<le> maxRetries \<and> after_failures w plat ms 0 tr = Some tr \<and>
        attempt w plat tr = (Inr creds, tr1)" by simp
    then show ?thesis by blast
  next
    case (Inl err)
    from Suc.IH[OF n(2,3), of "tr1 @ [Slept ms]"] show ?thesis
    proof
      assume "\<exists>j tr0 creds tr'. Suc n + j \<le> maxRetries \<and>
          after_failures w plat ms j (tr1 @ [Slept ms]) = Some tr0 \<and>
          attempt w plat tr0 = (Inr creds, tr')"
      then obtain j tr0 creds tr' where
        "Suc n + j \<le> maxRetries" "after_failures w plat ms j (tr1 @ [Slept ms]) = Some tr0"
        "attempt w plat tr0 = (Inr creds, tr')" by blast
      with a Inl have "n + Suc j \<le> maxRetries \<and> after_failures w plat ms (Suc j) tr = Some tr0 \<and>
          attempt w plat tr0 = (Inr creds, tr')" by simp
      then show ?thesis by blast
    next
      assume "\<exists>tr0 err tr'.
          after_failures w plat ms (maxRetries - Suc n) (tr1 @ [Slept ms]) = Some tr0 \<and>
          attempt w plat tr0 = (Inl err, tr')"
      then obtain tr0 err' tr' where
        "after_failures w plat ms (maxRetries - Suc n) (tr1 @ [Slept ms]) = Some tr0"
        "attempt w plat tr0 = (Inl err', tr')" by blast
      with a Inl n(4) have "after_failures w plat ms (maxRetries - n) tr = Some tr0 \<and>
          attempt w plat tr0 = (Inl err', tr')" by simp
      then show ?thesis by blast
    qed
  qed
qed

text \<open>The attempts and the delays a trace shows.\<close>

definition attempts_started :: "trace \<Rightarrow> nat" where
  "attempts_started tr = length (filter (\<lambda>m. m = AttemptStarted) (marks tr))"

fun delays_of :: "mark list \<Rightarrow> nat list" where
  "delays_of [] = []"
| "delays_of (AttemptStarted # ms) = delays_of ms"
| "delays_of (Delayed d # ms) = d # delays_of ms"

definition delays :: "trace \<Rightarrow> nat list" where
  "delays tr = delays_of (marks tr)"

lemma delays_of_append: "delays_of (xs @ ys) = delays_of xs @ delays_of ys"
  by (induction xs rule: delays_of.induct) simp_all

lemma failed_marks_counts:
  "length (filter (\<lambda>m. m = AttemptStarted) (failed_marks k ms)) = k"
  "delays_of (failed_marks k ms) = replicate k ms"
  by (induction k) simp_all

lemma exhausted_counts:
  assumes "marks evs = failed_marks k ms @ [AttemptStarted]"
  shows "attempts_started evs = Suc k" "delays evs = replicate k ms"
  using assms by (simp_all add: attempts_started_def delays_def failed_marks_counts delays_of_append)

lemma success_counts:
  assumes "marks evs = failed_marks k ms @ [AttemptStarted]"
  shows "attempts_started evs = Suc k"
  using assms by (simp add: attempts_started_def failed_marks_counts)

text \<open>The two outcomes of \<open>detectProcessInfo\<close>, exactly.\<close>

lemma detectProcessInfo_Some_iff:
  "detectProcessInfo w plat maxRetries ms tr = (Some creds, tr') \<longleftrightarrow>
     (\<exists>k tr0. k < maxRetries \<and> after_failures w plat ms k tr = Some tr0 \<and>
        attempt w plat tr0 = (Inr creds, tr'))"
proof
  assume "\<exists>k tr0. k < maxRetries \<and> after_failures w plat ms k tr = Some tr0 \<and>
      attempt w plat tr0 = (Inr creds, tr')"
  then obtain k tr0 where k: "k < maxRetries" and a: "after_failures w plat ms k tr = Some tr0"
    "attempt w plat tr0 = (Inr creds, tr')" by blast
  from k have "1 + k \<le> maxRetries" by simp
  from this a show "detectProcessInfo w plat maxRetries ms tr = (Some creds, tr')"
    unfolding detectProcessInfo_def by (rule detect_from_success)
next
  assume d: "detectProcessInfo w plat maxRetries ms tr = (Some creds, tr')"
  show "\<exists>k tr0. k < maxRetries \<and> after_failures w plat ms k tr = Some tr0 \<and>
      attempt w plat tr0 = (Inr creds, tr')"
  proof (cases "1 \<le> maxRetries")
    case False
    then have "detect_from w plat maxRetries ms 1 tr = (None, tr)"
      by (subst detect_from.simps) simp
    with d show ?thesis by (simp add: detectProcessInfo_def)
  next
    case True
    from attempts_classified[OF refl True, of w plat ms tr] show ?thesis
    proof
      assume "\<exists>j tr0 creds tr'. 1 + j \<le> maxRetries \<and> after_failures w plat ms j tr = Some tr0 \<and>
          attempt w plat tr0 = (Inr creds, tr')"
      then obtain j tr0 c2 tr2 where j: "1 + j \<le> maxRetries"
        "after_failures w plat ms j tr = Some tr0" "attempt w plat tr0 = (Inr c2, tr2)" by blast
      from detect_from_success[OF j] d have "c2 = creds" "tr2 = tr'"
        by (simp_all add: detectProcessInfo_def)
      with j have "j < maxRetries \<and> after_failures w plat ms j tr = Some tr0 \<and>
          attempt w plat tr0 = (Inr creds, tr')" by simp
      then show ?thesis by blast
    next
      assume "\<exists>tr0 err tr'. after_failures w plat ms (maxRetries - 1) tr = Some tr0 \<and>
          attempt w plat tr0 = (Inl err, tr')"
      then obtain tr0 err tr2 where "after_failures w plat ms (maxRetries - 1) tr = Some tr0"
        "attempt w plat tr0 = (Inl err, tr2)" by blast
      from detect_from_exhausted[OF True refl this] d show ?thesis
        by (simp add: detectProcessInfo_def)
    qed
  qed
qed

lemma detectProcessInfo_None_iff:
  assumes "1 \<le> maxRetries"
  shows "detectProcessInfo w plat maxRetries ms tr = (None, tr') \<longleftrightarrow>
     (\<exists>tr0 err. after_failures w plat ms (maxRetries - 1) tr = Some tr0 \<and>
        attempt w plat tr0 = (Inl err, tr'))"
proof
  assume "\<exists>tr0 err. after_failures w plat ms (maxRetries - 1) tr = Some tr0 \<and>
      attempt w plat tr0 = (Inl err, tr')"
  then obtain tr0 err where "after_failures w plat ms (maxRetries - 1) tr = Some tr0"
    "attempt w plat tr0 = (Inl err, tr')" by blast
  from detect_from_exhausted[OF assms refl this]
  show "detectProcessInfo w plat maxRetries ms tr = (None, tr')"
    by (simp add: detectProcessInfo_def)
next
  assume d: "detectProcessInfo w plat maxRetries ms tr = (None, tr')"
  from attempts_classified[OF refl assms, of w plat ms tr]
  show "\<exists>tr0 err. after_failures w plat ms (maxRetries - 1) tr = Some tr0 \<and>
      attempt w plat tr0 = (Inl err, tr')"
  proof
    assume "\<exists>j tr0 creds tr'. 1 + j \<le> maxRetries \<and> after_failures w plat ms j tr = Some tr0 \<and>
        attempt w plat tr0 = (Inr creds, tr')"
    then obtain j tr0 c2 tr2 where j: "1 + j \<le> maxRetries"
      "after_failures w plat ms j tr = Some tr0" "attempt w plat tr0 = (Inr c2, tr2)" by blast
    from detect_from_success[OF j] d show ?thesis by (simp add: detectProcessInfo_def)
  next
    assume "\<exists>tr0 err tr'. after_failures w plat ms (maxRetries - 1) tr = Some tr0 \<and>
        attempt w plat tr0 = (Inl err, tr')"
    then obtain tr0 err tr2 where e: "after_failures w plat ms (maxRetries - 1) tr = Some tr0"
      "attempt w plat tr0 = (Inl err, tr2)" by blast
    from detect_from_exhausted[OF assms refl this] d have "tr2 = tr'"
      by (simp add: detectProcessInfo_def)
    with e show ?thesis by blast
  qed
qed

text \<open>The marks of a run.\<close>

lemma success_marks:
  assumes "after_failures w plat ms k tr = Some tr0" "attempt w plat tr0 = (r, tr')"
  shows "\<exists>evs. tr' = tr @ evs \<and> marks evs = failed_marks k ms @ [AttemptStarted]"
proof -
  from after_failures_marks[OF assms(1)] obtain e1 where
    e1: "tr0 = tr @ e1" "marks e1 = failed_marks k ms" by blast
  from attempt_marks[OF assms(2)] obtain e2 where
    e2: "tr' = tr0 @ e2" "marks e2 = [AttemptStarted]" by blast
  from e1 e2 have "tr' = tr @ (e1 @ e2) \<and> marks (e1 @ e2) = failed_marks k ms @ [AttemptStarted]"
    by (simp add: marks_append)
  then show ?thesis by blast
qed

lemma detectProcessInfo_marks:
  assumes "1 \<le> maxRetries" "detectProcessInfo w plat maxRetries ms tr = (r, tr')"
  shows "\<exists>evs k. tr' = tr @ evs \<and> k < maxRetries \<and>
      marks evs = failed_marks k ms @ [AttemptStarted] \<and> (r = None \<longrightarrow> k = maxRetries - 1)"
proof (cases r)
  case None
  with assms detectProcessInfo_None_iff[OF assms(1), of w plat ms tr tr'] obtain tr0 err where
    "after_failures w plat ms (maxRetries - 1) tr = Some tr0" "attempt w plat tr0 = (Inl err, tr')"
    by blast
  from success_marks[OF this] obtain evs where
    "tr' = tr @ evs" "marks evs = failed_marks (maxRetries - 1) ms @ [AttemptStarted]" by blast
  with assms(1) have "tr' = tr @ evs \<and> maxRetries - 1 < maxRetries \<and>
      marks evs = failed_marks (maxRetries - 1) ms @ [AttemptStarted] \<and>
      (r = None \<longrightarrow> maxRetries - 1 = maxRetries - 1)" by simp
  then show ?thesis by blast
next
  case (Some creds)
  with assms detectProcessInfo_Some_iff[of w plat maxRetries ms tr creds tr'] obtain k tr0 where
    k: "k < maxRetries" and "after_failures w plat ms k tr = Some tr0"
    "attempt w plat tr0 = (Inr creds, tr')"
    by blast
  from success_marks[OF this(2,3)] obtain evs where
    "tr' = tr @ evs" "marks evs = failed_marks k ms @ [AttemptStarted]" by blast
  with k Some have "tr' = tr @ evs \<and> k < maxRetries \<and>
      marks evs = failed_marks k ms @ [AttemptStarted] \<and> (r = None \<longrightarrow> k = maxRetries - 1)"
    by simp
  then show ?thesis by blast
qed

text \<open>What makes an attempt succeed, and two ways in which it finds no port.\<close>

lemma attempt_success_iff:
  "attempt w plat tr = (Inr creds, tr') \<longleftrightarrow>
     (\<exists>stdout info ports tr2.
        processListCommand w tr = Inr stdout \<and>
        parseProcessInfo plat stdout = Some info \<and>
        getProcessListeningPorts w plat (pid info) (tr @ [ProcessListRun (Inr stdout)]) = (ports, tr2) \<and>
        ports \<noteq> [] \<and>
        findWorkingPort w ports (csrfToken info) tr2 = (Some (connectPort creds), tr') \<and>
        connectPort creds \<noteq> 0 \<and>
        cred_extensionPort creds = extensionPort info \<and>
        cred_csrfToken creds = csrfToken info)"
  by (cases creds)
    (auto simp: attempt_def Let_def split: sum.splits option.splits prod.splits if_splits)

lemma attempt_port_list_failed:
  "processListCommand w tr = Inr stdout \<Longrightarrow> parseProcessInfo plat stdout = Some info \<Longrightarrow>
   portListCommand w (tr @ [ProcessListRun (Inr stdout)]) (pid info) = Inl err \<Longrightarrow>
     attempt w plat tr =
       (Inl NoListeningPorts,
        tr @ [ProcessListRun (Inr stdout), PortListRun (pid info) (Inl err)])"
  by (simp add: attempt_def getProcessListeningPorts_def Let_def)

lemma attempt_no_ports:
  "processListCommand w tr = Inr stdout \<Longrightarrow> parseProcessInfo plat stdout = Some info \<Longrightarrow>
   portListCommand w (tr @ [ProcessListRun (Inr stdout)]) (pid info) = Inr out \<Longrightarrow>
   parseListeningPorts plat out = [] \<Longrightarrow>
     attempt w plat tr =
       (Inl NoListeningPorts,
        tr @ [ProcessListRun (Inr stdout), PortListRun (pid info) (Inr out)])"
  by (simp add: attempt_def getProcessListeningPorts_def Let_def)

lemma attempt_fails_without_ports:
  assumes "\<forall>t p. isl (portListCommand w t p)"
  shows "isl (fst (attempt w plat tr))"
proof (cases "processListCommand w tr")
  case (Inl err)
  then show ?thesis by (simp add: attempt_def Let_def)
next
  case (Inr stdout)
  show ?thesis
  proof (cases "parseProcessInfo plat stdout")
    case None
    with Inr show ?thesis by (simp add: attempt_def Let_def)
  next
    case (Some info)
    from assms obtain err where
      "portListCommand w (tr @ [ProcessListRun (Inr stdout)]) (pid info) = Inl err"
      by (metis isl_def)
    from attempt_port_list_failed[OF Inr Some this] show ?thesis by simp
  qed
qed

lemma detect_from_all_fail:
  "\<forall>t. isl (fst (attempt w plat t)) \<Longrightarrow> fst (detect_from w plat maxRetries ms n tr) = None"
proof (induction w plat maxRetries ms n tr rule: detect_from.induct)
  case (1 w plat maxRetries ms n tr)
  show ?case
  proof (cases "n \<le> maxRetries")
    case False
    then show ?thesis by (simp add: detect_from.simps[of w plat maxRetries ms n])
  next
    case True
    obtain r tr1 where a: "attempt w plat tr = (r, tr1)" by (cases "attempt w plat tr")
    with "1.prems" obtain err where r: "r = Inl err" by (cases r) (auto dest: spec[of _ tr])
    from "1.IH"[OF True a[unfolded r, symmetric] refl "1.prems"] a r True show ?thesis
      by (simp add: detect_from.simps[of w plat maxRetries ms n])
  qed
qed

text \<open>An attempt whose probe succeeds on a port other than 0 succeeds.\<close>

lemma findWorkingPort_Some_nonempty: "findWorkingPort w ports token tr = (Some p, tr') \<Longrightarrow> ports \<noteq> []"
  by (cases ports) simp_all

lemma attempt_nonzero_success:
  assumes "processListCommand w tr = Inr stdout"
    and "parseProcessInfo plat stdout = Some info"
    and "getProcessListeningPorts w plat (pid info) (tr @ [ProcessListRun (Inr stdout)]) = (ports, tr2)"
    and "findWorkingPort w ports (csrfToken info) tr2 = (Some p, tr')"
    and "p \<noteq> 0"
  shows "attempt w plat tr =
     (Inr \<lparr>cred_extensionPort = extensionPort info, connectPort = p,
            cred_csrfToken = csrfToken info\<rparr>, tr')"
proof -
  from assms(4) have "ports \<noteq> []" by (rule findWorkingPort_Some_nonempty)
  with assms show ?thesis by (simp add: attempt_success_iff)
qed

section \<open>The detector: the claims\<close>

text \<open>The world of the end-to-end example: the first process listing has no token, the
  later ones are the line of the specification; the process listens on 8000 and 9001 and
  only 9001 answers with status 200.\<close>

definition retry_world :: world where
  "retry_world =
     \<lparr>processListCommand = (\<lambda>tr. if tr = [] then Inr tokenless_line else Inr example_line),
      portListCommand = (\<lambda>tr p. Inr mixed_lsof_output),
      httpsRequest = (\<lambda>tr port token. if port = 9001 then Response 200 else ConnError)\<rparr>"

text \<open>A world in which the process never listens: the port listing is always empty.\<close>

definition deaf_world :: world where
  "deaf_world =
     \<lparr>processListCommand = (\<lambda>tr. Inr example_line),
      portListCommand = (\<lambda>tr p. Inr []),
      httpsRequest = (\<lambda>tr port token. Response 200)\<rparr>"

text \<open>A world in which the port-list command always times out.\<close>

definition timeout_world :: world where
  "timeout_world =
     \<lparr>processListCommand = (\<lambda>tr. Inr example_line),
      portListCommand = (\<lambda>tr p. Inl CmdTimeout),
      httpsRequest = (\<lambda>tr port token. Response 200)\<rparr>"

text \<open>A world whose port listing names port 0 and in which every request is answered
  with status 200.\<close>

definition port_zero_line :: jsstring where
  "port_zero_line = str ''TCP 127.0.0.1:0 (LISTEN)''"

definition zero_world :: world where
  "zero_world =
     \<lparr>processListCommand = (\<lambda>tr. Inr example_line),
      portListCommand = (\<lambda>tr p. Inr port_zero_line),
      httpsRequest = (\<lambda>tr port token. Response 200)\<rparr>"

lemma example_parses:
  "unix_parseProcessInfo tokenless_line = None"
  "unix_parseProcessInfo example_line =
     Some \<lparr>pid = 4412, extensionPort = 2873, csrfToken = str ''ab12cd34-ef56''\<rparr>"
  "unix_parseListeningPorts mixed_lsof_output = [8000, 9001]"
  "unix_parseListeningPorts [] = []"
  "unix_parseListeningPorts port_zero_line = [0]"
proof -
  show "unix_parseProcessInfo tokenless_line = None"
    by (simp add: unix_no_token tokenless_line_facts)
  show "unix_parseProcessInfo example_line =
     Some \<lparr>pid = 4412, extensionPort = 2873, csrfToken = str ''ab12cd34-ef56''\<rparr>"
    by (rule example_line_parse)
  show "unix_parseListeningPorts mixed_lsof_output = [8000, 9001]"
    by (simp add: mixed_lsof_output_def eval_simps)
  show "unix_parseListeningPorts [] = []"
    by (simp add: unix_parseListeningPorts_def)
  show "unix_parseListeningPorts port_zero_line = [0]"
    by (simp add: port_zero_line_def eval_simps)
qed

lemmas run_simps =
  attempt_def getProcessListeningPorts_def testPortConnectivity_def Let_def example_parses

lemma retry_world_attempts:
  "attempt retry_world Unix [] = (Inl ProcessNotFound, [ProcessListRun (Inr tokenless_line)])"
  "attempt retry_world Unix [ProcessListRun (Inr tokenless_line), Slept 2000] =
     (Inr \<lparr>cred_extensionPort = 2873, connectPort = 9001,
            cred_csrfToken = str ''ab12cd34-ef56''\<rparr>,
      [ProcessListRun (Inr tokenless_line), Slept 2000,
       ProcessListRun (Inr example_line), PortListRun 4412 (Inr mixed_lsof_output),
       ProbeSent 8000 (str ''ab12cd34-ef56'') ConnError,
       ProbeSent 9001 (str ''ab12cd34-ef56'') (Response 200)])"
  by (simp_all add: run_simps retry_world_def)

lemma deaf_world_attempt:
  "attempt deaf_world Unix tr =
     (Inl NoListeningPorts, tr @ [ProcessListRun (Inr example_line), PortListRun 4412 (Inr [])])"
  by (simp add: run_simps deaf_world_def)

lemma timeout_world_attempt:
  "attempt timeout_world Unix tr =
     (Inl NoListeningPorts,
      tr @ [ProcessListRun (Inr example_line), PortListRun 4412 (Inl CmdTimeout)])"
  by (simp add: run_simps timeout_world_def)

lemma zero_world_attempt:
  "attempt zero_world Unix tr =
     (Inl NoWorkingPort,
      tr @ [ProcessListRun (Inr example_line), PortListRun 4412 (Inr port_zero_line),
            ProbeSent 0 (str ''ab12cd34-ef56'') (Response 200)])"
  by (simp add: run_simps zero_world_def)

text \<open>
  Claim C1, as stated, fails where the port that answers is 0: \<open>!connectPort\<close> holds
  for the number 0 as it does for \<open>null\<close>. In a world whose port listing names port 0
  and in which every request is answered with status 200, the process information is
  parsed, a port is found and its probe succeeds, \<open>findWorkingPort\<close> returns 0, and yet
  every attempt fails and the result is \<open>None\<close>.
\<close>

theorem detectProcessInfo_port_zero_counterexample:
  "parseProcessInfo Unix example_line =
     Some \<lparr>pid = 4412, extensionPort = 2873, csrfToken = str ''ab12cd34-ef56''\<rparr> \<and>
   getProcessListeningPorts zero_world Unix 4412 [ProcessListRun (Inr example_line)] =
     ([0], [ProcessListRun (Inr example_line), PortListRun 4412 (Inr port_zero_line)]) \<and>
   findWorkingPort zero_world [0] (str ''ab12cd34-ef56'')
       [ProcessListRun (Inr example_line), PortListRun 4412 (Inr port_zero_line)] =
     (Some 0,
      [ProcessListRun (Inr example_line), PortListRun 4412 (Inr port_zero_line),
       ProbeSent 0 (str ''ab12cd34-ef56'') (Response 200)]) \<and>
   attempt zero_world Unix [] =
     (Inl NoWorkingPort,
      [ProcessListRun (Inr example_line), PortListRun 4412 (Inr port_zero_line),
       ProbeSent 0 (str ''ab12cd34-ef56'') (Response 200)]) \<and>
   fst (detectProcessInfo zero_world Unix 3 2000 []) = None"
proof -
  have p: "parseProcessInfo Unix example_line =
     Some \<lparr>pid = 4412, extensionPort = 2873, csrfToken = str ''ab12cd34-ef56''\<rparr>"
    by (simp add: example_parses)
  have g: "getProcessListeningPorts zero_world Unix 4412 [ProcessListRun (Inr example_line)] =
     ([0], [ProcessListRun (Inr example_line), PortListRun 4412 (Inr port_zero_line)])"
    by (simp add: getProcessListeningPorts_def Let_def zero_world_def example_parses)
  have f: "findWorkingPort zero_world [0] (str ''ab12cd34-ef56'')
       [ProcessListRun (Inr example_line), PortListRun 4412 (Inr port_zero_line)] =
     (Some 0,
      [ProcessListRun (Inr example_line), PortListRun 4412 (Inr port_zero_line),
       ProbeSent 0 (str ''ab12cd34-ef56'') (Response 200)])"
    by (simp add: testPortConnectivity_def Let_def zero_world_def)
  have a: "attempt zero_world Unix [] =
     (Inl NoWorkingPort,
      [ProcessListRun (Inr example_line), PortListRun 4412 (Inr port_zero_line),
       ProbeSent 0 (str ''ab12cd34-ef56'') (Response 200)])"
    using zero_world_attempt[of "[]"] by simp
  have "\<forall>t. isl (fst (attempt zero_world Unix t))" by (simp add: zero_world_attempt)
  then have d: "fst (detectProcessInfo zero_world Unix 3 2000 []) = None"
    by (simp add: detectProcessInfo_def detect_from_all_fail)
  from p g f a d show ?thesis by (intro conjI)
qed

text \<open>
  Claim C1, amended. For \<open>maxRetries \<ge> 1\<close>, \<open>detectProcessInfo\<close> returns credentials exactly when,
  for some \<open>k < maxRetries\<close>, the first \<open>k\<close> attempts fail (each followed by the delay)
  and the next attempt succeeds; the credentials and the final trace are those of that
  attempt, so nothing is started after it. It returns \<open>None\<close> exactly when all
  \<open>maxRetries\<close> attempts fail. It never starts more than \<open>maxRetries\<close> attempts. An
  attempt succeeds exactly when the process information is parsed, the port list is not
  empty and a probe succeeds on a port other than 0 (which \<open>!connectPort\<close> takes for
  absent); its credentials are the declared port and the token of that attempt's process
  information and the port that answered. The witness is the end-to-end example: with
  \<open>maxRetries = 3\<close>, a parse failure on attempt 1 and success on attempt 2 give the
  credentials of attempt 2 after two attempts.
\<close>

theorem detectProcessInfo_first_success:
  assumes "1 \<le> maxRetries"
  shows
   "(detectProcessInfo w plat maxRetries ms tr = (Some creds, tr') \<longleftrightarrow>
       (\<exists>k tr0. k < maxRetries \<and> after_failures w plat ms k tr = Some tr0 \<and>
          attempt w plat tr0 = (Inr creds, tr'))) \<and>
    (detectProcessInfo w plat maxRetries ms tr = (None, tr') \<longleftrightarrow>
       (\<exists>tr0 err. after_failures w plat ms (maxRetries - 1) tr = Some tr0 \<and>
          attempt w plat tr0 = (Inl err, tr'))) \<and>
    (\<exists>evs. snd (detectProcessInfo w plat maxRetries ms tr) = tr @ evs \<and>
       attempts_started evs \<le> maxRetries \<and>
       (fst (detectProcessInfo w plat maxRetries ms tr) = None \<longrightarrow>
          attempts_started evs = maxRetries)) \<and>
    (attempt w plat tr1 = (Inr creds, tr') \<longleftrightarrow>
       (\<exists>stdout info ports tr2.
          processListCommand w tr1 = Inr stdout \<and>
          parseProcessInfo plat stdout = Some info \<and>
          getProcessListeningPorts w plat (pid info) (tr1 @ [ProcessListRun (Inr stdout)]) =
            (ports, tr2) \<and>
          ports \<noteq> [] \<and>
          findWorkingPort w ports (csrfToken info) tr2 = (Some (connectPort creds), tr') \<and>
          connectPort creds \<noteq> 0 \<and>
          cred_extensionPort creds = extensionPort info \<and>
          cred_csrfToken creds = csrfToken info)) \<and>
    (processListCommand w tr1 = Inr stdout \<and>
     parseProcessInfo plat stdout = Some info \<and>
     getProcessListeningPorts w plat (pid info) (tr1 @ [ProcessListRun (Inr stdout)]) =
       (ports, tr2) \<and>
     findWorkingPort w ports (csrfToken info) tr2 = (Some p, tr3) \<and> p \<noteq> 0 \<longrightarrow>
       attempt w plat tr1 =
         (Inr \<lparr>cred_extensionPort = extensionPort info, connectPort = p,
                cred_csrfToken = csrfToken info\<rparr>, tr3))"
proof -
  obtain r trf where d: "detectProcessInfo w plat maxRetries ms tr = (r, trf)"
    by (cases "detectProcessInfo w plat maxRetries ms tr")
  from detectProcessInfo_marks[OF assms d] obtain evs k where
    m: "trf = tr @ evs" "k < maxRetries" "marks evs = failed_marks k ms @ [AttemptStarted]"
      "r = None \<longrightarrow> k = maxRetries - 1" by blast
  from success_counts[OF m(3)] have c: "attempts_started evs = Suc k" .
  from m(2) c have c1: "attempts_started evs \<le> maxRetries" by simp
  from m(4) c assms have c2: "r = None \<longrightarrow> attempts_started evs = maxRetries" by simp
  from d m(1) c1 c2 have "snd (detectProcessInfo w plat maxRetries ms tr) = tr @ evs \<and>
       attempts_started evs \<le> maxRetries \<and>
       (fst (detectProcessInfo w plat maxRetries ms tr) = None \<longrightarrow>
          attempts_started evs = maxRetries)" by simp
  then have C: "\<exists>evs. snd (detectProcessInfo w plat maxRetries ms tr) = tr @ evs \<and>
       attempts_started evs \<le> maxRetries \<and>
       (fst (detectProcessInfo w plat maxRetries ms tr) = None \<longrightarrow>
          attempts_started evs = maxRetries)" by (rule exI)
  note A = detectProcessInfo_Some_iff[of w plat maxRetries ms tr creds tr']
  note B = detectProcessInfo_None_iff[OF assms, of w plat ms tr tr']
  note D = attempt_success_iff[of w plat tr1 creds tr']
  have E: "processListCommand w tr1 = Inr stdout \<and>
     parseProcessInfo plat stdout = Some info \<and>
     getProcessListeningPorts w plat (pid info) (tr1 @ [ProcessListRun (Inr stdout)]) =
       (ports, tr2) \<and>
     findWorkingPort w ports (csrfToken info) tr2 = (Some p, tr3) \<and> p \<noteq> 0 \<longrightarrow>
       attempt w plat tr1 =
         (Inr \<lparr>cred_extensionPort = extensionPort info, connectPort = p,
                cred_csrfToken = csrfToken info\<rparr>, tr3)"
    using attempt_nonzero_success[of w tr1 stdout plat info ports tr2 p tr3] by blast
  show ?thesis by (rule conjI[OF A conjI[OF B conjI[OF C conjI[OF D E]]]])
qed

theorem detectProcessInfo_first_success_witness:
  "(1::nat) \<le> 3 \<and>
   after_failures retry_world Unix 2000 1 [] =
     Some [ProcessListRun (Inr tokenless_line), Slept 2000] \<and>
   detectProcessInfo retry_world Unix 3 2000 [] =
     (Some \<lparr>cred_extensionPort = 2873, connectPort = 9001,
            cred_csrfToken = str ''ab12cd34-ef56''\<rparr>,
      [ProcessListRun (Inr tokenless_line), Slept 2000,
       ProcessListRun (Inr example_line), PortListRun 4412 (Inr mixed_lsof_output),
       ProbeSent 8000 (str ''ab12cd34-ef56'') ConnError,
       ProbeSent 9001 (str ''ab12cd34-ef56'') (Response 200)]) \<and>
   attempt retry_world Unix [ProcessListRun (Inr tokenless_line), Slept 2000] =
     (Inr \<lparr>cred_extensionPort = 2873, connectPort = 9001,
            cred_csrfToken = str ''ab12cd34-ef56''\<rparr>,
      [ProcessListRun (Inr tokenless_line), Slept 2000,
       ProcessListRun (Inr example_line), PortListRun 4412 (Inr mixed_lsof_output),
       ProbeSent 8000 (str ''ab12cd34-ef56'') ConnError,
       ProbeSent 9001 (str ''ab12cd34-ef56'') (Response 200)]) \<and>
   attempts_started
     [ProcessListRun (Inr tokenless_line), Slept 2000,
       ProcessListRun (Inr example_line), PortListRun 4412 (Inr mixed_lsof_output),
       ProbeSent 8000 (str ''ab12cd34-ef56'') ConnError,
       ProbeSent 9001 (str ''ab12cd34-ef56'') (Response 200)] = 2"
proof -
  have le: "(1::nat) \<le> 3" by simp
  have af: "after_failures retry_world Unix 2000 1 [] =
      Some [ProcessListRun (Inr tokenless_line), Slept 2000]"
    by (simp add: retry_world_attempts)
  have at: "attempt retry_world Unix [ProcessListRun (Inr tokenless_line), Slept 2000] =
     (Inr \<lparr>cred_extensionPort = 2873, connectPort = 9001,
            cred_csrfToken = str ''ab12cd34-ef56''\<rparr>,
      [ProcessListRun (Inr tokenless_line), Slept 2000,
       ProcessListRun (Inr example_line), PortListRun 4412 (Inr mixed_lsof_output),
       ProbeSent 8000 (str ''ab12cd34-ef56'') ConnError,
       ProbeSent 9001 (str ''ab12cd34-ef56'') (Response 200)])"
    by (rule retry_world_attempts)
  have ex: "\<exists>k tr0. k < 3 \<and> after_failures retry_world Unix 2000 k [] = Some tr0 \<and>
      attempt retry_world Unix tr0 =
     (Inr \<lparr>cred_extensionPort = 2873, connectPort = 9001,
            cred_csrfToken = str ''ab12cd34-ef56''\<rparr>,
      [ProcessListRun (Inr tokenless_line), Slept 2000,
       ProcessListRun (Inr example_line), PortListRun 4412 (Inr mixed_lsof_output),
       ProbeSent 8000 (str ''ab12cd34-ef56'') ConnError,
       ProbeSent 9001 (str ''ab12cd34-ef56'') (Response 200)])"
    using af at
    by (intro exI[of _ 1] exI[of _ "[ProcessListRun (Inr tokenless_line), Slept 2000]"]) simp
  from detectProcessInfo_first_success[OF le, of retry_world Unix 2000 "[]"
      "\<lparr>cred_extensionPort = 2873, connectPort = 9001, cred_csrfToken = str ''ab12cd34-ef56''\<rparr>"
      "[ProcessListRun (Inr tokenless_line), Slept 2000,
       ProcessListRun (Inr example_line), PortListRun 4412 (Inr mixed_lsof_output),
       ProbeSent 8000 (str ''ab12cd34-ef56'') ConnError,
       ProbeSent 9001 (str ''ab12cd34-ef56'') (Response 200)]"]
  have "detectProcessInfo retry_world Unix 3 2000 [] =
     (Some \<lparr>cred_extensionPort = 2873, connectPort = 9001,
            cred_csrfToken = str ''ab12cd34-ef56''\<rparr>,
      [ProcessListRun (Inr tokenless_line), Slept 2000,
       ProcessListRun (Inr example_line), PortListRun 4412 (Inr mixed_lsof_output),
       ProbeSent 8000 (str ''ab12cd34-ef56'') ConnError,
       ProbeSent 9001 (str ''ab12cd34-ef56'') (Response 200)]) \<longleftrightarrow>
     (\<exists>k tr0. k < 3 \<and> after_failures retry_world Unix 2000 k [] = Some tr0 \<and>
      attempt retry_world Unix tr0 =
     (Inr \<lparr>cred_extensionPort = 2873, connectPort = 9001,
            cred_csrfToken = str ''ab12cd34-ef56''\<rparr>,
      [ProcessListRun (Inr tokenless_line), Slept 2000,
       ProcessListRun (Inr example_line), PortListRun 4412 (Inr mixed_lsof_output),
       ProbeSent 8000 (str ''ab12cd34-ef56'') ConnError,
       ProbeSent 9001 (str ''ab12cd34-ef56'') (Response 200)]))"
    by (rule conjunct1)
  from this ex have run: "detectProcessInfo retry_world Unix 3 2000 [] =
     (Some \<lparr>cred_extensionPort = 2873, connectPort = 9001,
            cred_csrfToken = str ''ab12cd34-ef56''\<rparr>,
      [ProcessListRun (Inr tokenless_line), Slept 2000,
       ProcessListRun (Inr example_line), PortListRun 4412 (Inr mixed_lsof_output),
       ProbeSent 8000 (str ''ab12cd34-ef56'') ConnError,
       ProbeSent 9001 (str ''ab12cd34-ef56'') (Response 200)])"
    by (rule iffD2)
  have cnt: "attempts_started
     [ProcessListRun (Inr tokenless_line), Slept 2000,
       ProcessListRun (Inr example_line), PortListRun 4412 (Inr mixed_lsof_output),
       ProbeSent 8000 (str ''ab12cd34-ef56'') ConnError,
       ProbeSent 9001 (str ''ab12cd34-ef56'') (Response 200)] = 2"
    by (simp add: attempts_started_def)
  from le af run at cnt show ?thesis by (intro conjI)
qed

text \<open>
  Claim C9. For \<open>maxRetries \<ge> 1\<close>, when every attempt fails the result is \<open>None\<close>, and
  in every run that ends with \<open>None\<close> the trace shows the start of an attempt and a delay
  of \<open>retryDelay\<close> in turn, \<open>maxRetries - 1\<close> times, and then the start of the last
  attempt with no delay after it: exactly \<open>maxRetries\<close> attempts and exactly
  \<open>maxRetries - 1\<close> delays. The witness is a process that never listens, with
  \<open>maxRetries = 3\<close>.
\<close>

theorem detectProcessInfo_all_fail_delays:
  assumes "1 \<le> maxRetries"
  shows
   "((\<exists>tr0 err. after_failures w plat ms (maxRetries - 1) tr = Some tr0 \<and>
        attempt w plat tr0 = (Inl err, tr')) \<longrightarrow>
       detectProcessInfo w plat maxRetries ms tr = (None, tr')) \<and>
    (detectProcessInfo w plat maxRetries ms tr = (None, tr') \<longrightarrow>
       (\<exists>evs. tr' = tr @ evs \<and>
          marks evs = failed_marks (maxRetries - 1) ms @ [AttemptStarted] \<and>
          attempts_started evs = maxRetries \<and>
          delays evs = replicate (maxRetries - 1) ms)) \<and>
    ((\<forall>t. isl (fst (attempt w plat t))) \<longrightarrow>
       fst (detectProcessInfo w plat maxRetries ms tr) = None)"
proof -
  have A: "(\<exists>tr0 err. after_failures w plat ms (maxRetries - 1) tr = Some tr0 \<and>
        attempt w plat tr0 = (Inl err, tr')) \<longrightarrow>
       detectProcessInfo w plat maxRetries ms tr = (None, tr')"
    using detectProcessInfo_None_iff[OF assms, of w plat ms tr tr'] by (rule iffD2[THEN impI])
  have B: "detectProcessInfo w plat maxRetries ms tr = (None, tr') \<longrightarrow>
       (\<exists>evs. tr' = tr @ evs \<and>
          marks evs = failed_marks (maxRetries - 1) ms @ [AttemptStarted] \<and>
          attempts_started evs = maxRetries \<and>
          delays evs = replicate (maxRetries - 1) ms)"
  proof
    assume d: "detectProcessInfo w plat maxRetries ms tr = (None, tr')"
    from detectProcessInfo_marks[OF assms d] obtain evs where
      e: "tr' = tr @ evs" "marks evs = failed_marks (maxRetries - 1) ms @ [AttemptStarted]"
      by auto
    from exhausted_counts[OF e(2)] assms
    have "attempts_started evs = maxRetries" "delays evs = replicate (maxRetries - 1) ms"
      by simp_all
    with e have "tr' = tr @ evs \<and>
          marks evs = failed_marks (maxRetries - 1) ms @ [AttemptStarted] \<and>
          attempts_started evs = maxRetries \<and>
          delays evs = replicate (maxRetries - 1) ms" by simp
    then show "\<exists>evs. tr' = tr @ evs \<and>
          marks evs = failed_marks (maxRetries - 1) ms @ [AttemptStarted] \<and>
          attempts_started evs = maxRetries \<and>
          delays evs = replicate (maxRetries - 1) ms" by (rule exI)
  qed
  have C: "(\<forall>t. isl (fst (attempt w plat t))) \<longrightarrow>
       fst (detectProcessInfo w plat maxRetries ms tr) = None"
    by (simp add: detectProcessInfo_def detect_from_all_fail)
  show ?thesis by (rule conjI[OF A conjI[OF B C]])
qed

theorem detectProcessInfo_all_fail_delays_witness:
  "(1::nat) \<le> 3 \<and>
   after_failures deaf_world Unix 2000 2 [] =
     Some [ProcessListRun (Inr example_line), PortListRun 4412 (Inr []), Slept 2000,
           ProcessListRun (Inr example_line), PortListRun 4412 (Inr []), Slept 2000] \<and>
   detectProcessInfo deaf_world Unix 3 2000 [] =
     (None,
      [ProcessListRun (Inr example_line), PortListRun 4412 (Inr []), Slept 2000,
       ProcessListRun (Inr example_line), PortListRun 4412 (Inr []), Slept 2000,
       ProcessListRun (Inr example_line), PortListRun 4412 (Inr [])]) \<and>
   attempts_started
     [ProcessListRun (Inr example_line), PortListRun 4412 (Inr []), Slept 2000,
       ProcessListRun (Inr example_line), PortListRun 4412 (Inr []), Slept 2000,
       ProcessListRun (Inr example_line), PortListRun 4412 (Inr [])] = 3 \<and>
   delays
     [ProcessListRun (Inr example_line), PortListRun 4412 (Inr []), Slept 2000,
       ProcessListRun (Inr example_line), PortListRun 4412 (Inr []), Slept 2000,
       ProcessListRun (Inr example_line), PortListRun 4412 (Inr [])] = [2000, 2000]"
proof -
  let ?tr0 = "[ProcessListRun (Inr example_line), PortListRun 4412 (Inr []), Slept 2000,
           ProcessListRun (Inr example_line), PortListRun 4412 (Inr []), Slept 2000]"
  let ?tr' = "[ProcessListRun (Inr example_line), PortListRun 4412 (Inr []), Slept 2000,
       ProcessListRun (Inr example_line), PortListRun 4412 (Inr []), Slept 2000,
       ProcessListRun (Inr example_line), PortListRun 4412 (Inr [])]"
  have le: "(1::nat) \<le> 3" by simp
  have af: "after_failures deaf_world Unix 2000 2 [] = Some ?tr0"
    by (simp add: numeral_2_eq_2 deaf_world_attempt)
  have at: "attempt deaf_world Unix ?tr0 = (Inl NoListeningPorts, ?tr')"
    by (simp add: deaf_world_attempt)
  from af at have ex: "\<exists>tr0 err. after_failures deaf_world Unix 2000 (3 - 1) [] = Some tr0 \<and>
      attempt deaf_world Unix tr0 = (Inl err, ?tr')"
    by (intro exI[of _ ?tr0] exI[of _ NoListeningPorts]) simp
  from detectProcessInfo_all_fail_delays[OF le, of deaf_world Unix 2000 "[]" ?tr']
  have "(\<exists>tr0 err. after_failures deaf_world Unix 2000 (3 - 1) [] = Some tr0 \<and>
      attempt deaf_world Unix tr0 = (Inl err, ?tr')) \<longrightarrow>
      detectProcessInfo deaf_world Unix 3 2000 [] = (None, ?tr')"
    by (rule conjunct1)
  from this ex have run: "detectProcessInfo deaf_world Unix 3 2000 [] = (None, ?tr')"
    by (rule mp)
  have cnt: "attempts_started ?tr' = 3" "delays ?tr' = [2000, 2000]"
    by (simp_all add: attempts_started_def delays_def)
  from le af run cnt show ?thesis by (intro conjI)
qed

text \<open>
  Claim C8. When the port-list command fails, \<open>getProcessListeningPorts\<close> returns the
  empty list, and the attempt fails with \<open>NoListeningPorts\<close>, the outcome it also has when
  the command succeeds and its output holds no port. The error stays inside the attempt:
  in a world whose port-list command always fails, \<open>detectProcessInfo\<close> returns \<open>None\<close>.
\<close>

theorem port_list_failure_is_no_ports:
  "(portListCommand w tr p = Inl err \<longrightarrow>
      getProcessListeningPorts w plat p tr = ([], tr @ [PortListRun p (Inl err)])) \<and>
   (processListCommand w tr = Inr stdout \<and> parseProcessInfo plat stdout = Some info \<and>
    portListCommand w (tr @ [ProcessListRun (Inr stdout)]) (pid info) = Inl err \<longrightarrow>
      fst (attempt w plat tr) = Inl NoListeningPorts) \<and>
   (processListCommand w tr = Inr stdout \<and> parseProcessInfo plat stdout = Some info \<and>
    portListCommand w (tr @ [ProcessListRun (Inr stdout)]) (pid info) = Inr out \<and>
    parseListeningPorts plat out = [] \<longrightarrow>
      fst (attempt w plat tr) = Inl NoListeningPorts) \<and>
   ((\<forall>t q. isl (portListCommand w t q)) \<longrightarrow>
      fst (detectProcessInfo w plat maxRetries ms tr) = None)"
proof -
  have A: "portListCommand w tr p = Inl err \<longrightarrow>
      getProcessListeningPorts w plat p tr = ([], tr @ [PortListRun p (Inl err)])"
    by (simp add: getProcessListeningPorts_def Let_def)
  have B: "processListCommand w tr = Inr stdout \<and> parseProcessInfo plat stdout = Some info \<and>
    portListCommand w (tr @ [ProcessListRun (Inr stdout)]) (pid info) = Inl err \<longrightarrow>
      fst (attempt w plat tr) = Inl NoListeningPorts"
    by (simp add: attempt_port_list_failed)
  have C: "processListCommand w tr = Inr stdout \<and> parseProcessInfo plat stdout = Some info \<and>
    portListCommand w (tr @ [ProcessListRun (Inr stdout)]) (pid info) = Inr out \<and>
    parseListeningPorts plat out = [] \<longrightarrow>
      fst (attempt w plat tr) = Inl NoListeningPorts"
    by (simp add: attempt_no_ports)
  have D: "(\<forall>t q. isl (portListCommand w t q)) \<longrightarrow>
      fst (detectProcessInfo w plat maxRetries ms tr) = None"
  proof
    assume "\<forall>t q. isl (portListCommand w t q)"
    then have "\<forall>t. isl (fst (attempt w plat t))" by (simp add: attempt_fails_without_ports)
    then show "fst (detectProcessInfo w plat maxRetries ms tr) = None"
      by (simp add: detectProcessInfo_def detect_from_all_fail)
  qed
  show ?thesis by (rule conjI[OF A conjI[OF B conjI[OF C D]]])
qed

theorem port_list_failure_is_no_ports_witness:
  "portListCommand timeout_world [ProcessListRun (Inr example_line)] 4412 = Inl CmdTimeout \<and>
   getProcessListeningPorts timeout_world Unix 4412 [ProcessListRun (Inr example_line)] =
     ([], [ProcessListRun (Inr example_line), PortListRun 4412 (Inl CmdTimeout)]) \<and>
   fst (attempt timeout_world Unix []) = Inl NoListeningPorts \<and>
   fst (attempt deaf_world Unix []) = Inl NoListeningPorts \<and>
   fst (detectProcessInfo timeout_world Unix 2 2000 []) = None"
proof -
  have p: "\<forall>t q. isl (portListCommand timeout_world t q)"
    by (simp add: timeout_world_def)
  have c: "portListCommand timeout_world [ProcessListRun (Inr example_line)] 4412 = Inl CmdTimeout"
    by (simp add: timeout_world_def)
  have i: "processListCommand timeout_world [] = Inr example_line"
    "parseProcessInfo Unix example_line =
       Some \<lparr>pid = 4412, extensionPort = 2873, csrfToken = str ''ab12cd34-ef56''\<rparr>"
    "portListCommand timeout_world ([] @ [ProcessListRun (Inr example_line)])
       (pid \<lparr>pid = 4412, extensionPort = 2873, csrfToken = str ''ab12cd34-ef56''\<rparr>) =
       Inl CmdTimeout"
    by (simp_all add: timeout_world_def example_parses)
  have j: "processListCommand deaf_world [] = Inr example_line"
    "portListCommand deaf_world ([] @ [ProcessListRun (Inr example_line)])
       (pid \<lparr>pid = 4412, extensionPort = 2873, csrfToken = str ''ab12cd34-ef56''\<rparr>) = Inr []"
    "parseListeningPorts Unix [] = []"
    by (simp_all add: deaf_world_def example_parses)
  note t1 = port_list_failure_is_no_ports[of timeout_world "[ProcessListRun (Inr example_line)]"
      4412 CmdTimeout Unix example_line
      "\<lparr>pid = 4412, extensionPort = 2873, csrfToken = str ''ab12cd34-ef56''\<rparr>" "[]" 2 2000]
  note t2 = port_list_failure_is_no_ports[of timeout_world "[]"
      4412 CmdTimeout Unix example_line
      "\<lparr>pid = 4412, extensionPort = 2873, csrfToken = str ''ab12cd34-ef56''\<rparr>" "[]" 2 2000]
  note t3 = port_list_failure_is_no_ports[of deaf_world "[]"
      4412 CmdTimeout Unix example_line
      "\<lparr>pid = 4412, extensionPort = 2873, csrfToken = str ''ab12cd34-ef56''\<rparr>" "[]" 2 2000]
  from t1 c have g: "getProcessListeningPorts timeout_world Unix 4412 [ProcessListRun (Inr example_line)] =
     ([], [ProcessListRun (Inr example_line), PortListRun 4412 (Inl CmdTimeout)])"
    by simp
  from t2 i have a1: "fst (attempt timeout_world Unix []) = Inl NoListeningPorts" by blast
  from t3 i(2) j have a2: "fst (attempt deaf_world Unix []) = Inl NoListeningPorts" by blast
  from t2 p have d: "fst (detectProcessInfo timeout_world Unix 2 2000 []) = None" by blast
  from c g a1 a2 d show ?thesis by (intro conjI)
qed


end
